theory Spec2Isabelle
  imports Complex_Main "HOL-Library.Log_Nat" "HOL-Library.Multiset"
begin

text \<open>
  The ranking pipeline of the market list: the spread and the liquidity rating of a market,
  the comparators and the compound sort chain, the assembly of the market records from
  pairs and summaries, the analysis of an order book, and the validation of the summary
  payload. Each function of the program is a function here; their properties follow the
  definitions.
\<close>

section \<open>JavaScript numbers\<close>

text \<open>
  Every number of the program is an IEEE-754 binary64 value. A finite value is kept as the
  rational it denotes (\<open>Fin 0\<close> is \<open>+0\<close>); the negative zero, the two infinities and NaN are
  constructors of their own. Arithmetic computes the exact rational result and rounds it to
  the nearest representable value, ties to the even significand.
\<close>

datatype jsnum = Fin rat | NegZero | PosInf | NegInf | NaN

text \<open>\<open>flog2 x\<close> is the integer \<open>k\<close> with \<open>2^k \<le> x < 2^(k+1)\<close>, for positive \<open>x\<close>.\<close>

definition flog2 :: "rat \<Rightarrow> int" where
  "flog2 x = (if 1 \<le> x then bitlen \<lfloor>x\<rfloor> - 1 else - bitlen (\<lceil>1 / x\<rceil> - 1))"

text \<open>
  The exponent of the last place of a positive \<open>x\<close>: 53 significant bits, and never below
  the exponent \<open>-1074\<close> of the subnormal numbers.
\<close>

definition ulp_exp :: "rat \<Rightarrow> int" where
  "ulp_exp x = max (- 1074) (flog2 x - 52)"

definition round_half_even :: "rat \<Rightarrow> int" where
  "round_half_even y =
     (let f = \<lfloor>y\<rfloor>; r = y - of_int f
      in if r < 1 / 2 then f else if 1 / 2 < r then f + 1 else if even f then f else f + 1)"

definition round_mag :: "rat \<Rightarrow> rat" where
  "round_mag x = of_int (round_half_even (x / 2 powi ulp_exp x)) * 2 powi ulp_exp x"

text \<open>
  Rounding of an exact result. A magnitude that rounds to \<open>2^1024\<close> or more overflows to an
  infinity; a negative result that rounds to zero is the negative zero. The exact zero is
  \<open>+0\<close> here; the operations below give the zero its sign where IEEE does otherwise.
\<close>

definition round_double :: "rat \<Rightarrow> jsnum" where
  "round_double x =
     (if x = 0 then Fin 0
      else if 0 < x then (let r = round_mag x in if 1024 \<le> flog2 r then PosInf else Fin r)
      else (let r = round_mag (- x)
            in if 1024 \<le> flog2 r then NegInf else if r = 0 then NegZero else Fin (- r)))"

text \<open>A value of the model is a double when rounding leaves it as it is.\<close>

fun is_double :: "jsnum \<Rightarrow> bool" where
  "is_double (Fin x) = (round_double x = Fin x)"
| "is_double _ = True"

fun js_sign :: "jsnum \<Rightarrow> bool" where
  "js_sign (Fin x) = (x < 0)"
| "js_sign NegZero = True"
| "js_sign PosInf = False"
| "js_sign NegInf = True"
| "js_sign NaN = False"

fun js_is_zero :: "jsnum \<Rightarrow> bool" where
  "js_is_zero (Fin x) = (x = 0)"
| "js_is_zero NegZero = True"
| "js_is_zero _ = False"

fun js_is_inf :: "jsnum \<Rightarrow> bool" where
  "js_is_inf PosInf = True"
| "js_is_inf NegInf = True"
| "js_is_inf _ = False"

fun fin_val :: "jsnum \<Rightarrow> rat" where
  "fin_val (Fin x) = x"
| "fin_val _ = 0"

definition js_zero :: "bool \<Rightarrow> jsnum" where
  "js_zero negative = (if negative then NegZero else Fin 0)"

definition js_inf :: "bool \<Rightarrow> jsnum" where
  "js_inf negative = (if negative then NegInf else PosInf)"

text \<open>\<open>Number.isFinite\<close>, and \<open>isNaN\<close> on a number.\<close>

fun isFinite :: "jsnum \<Rightarrow> bool" where
  "isFinite (Fin x) = True"
| "isFinite NegZero = True"
| "isFinite _ = False"

definition isNaN :: "jsnum \<Rightarrow> bool" where
  "isNaN a = (a = NaN)"

definition js_neg :: "jsnum \<Rightarrow> jsnum" where
  "js_neg a =
     (case a of
        Fin x \<Rightarrow> if x = 0 then NegZero else Fin (- x)
      | NegZero \<Rightarrow> Fin 0
      | PosInf \<Rightarrow> NegInf
      | NegInf \<Rightarrow> PosInf
      | NaN \<Rightarrow> NaN)"

definition js_add :: "jsnum \<Rightarrow> jsnum \<Rightarrow> jsnum" where
  "js_add a b =
     (if a = NaN \<or> b = NaN then NaN
      else if js_is_inf a then (if js_is_inf b \<and> a \<noteq> b then NaN else a)
      else if js_is_inf b then b
      else if a = NegZero then b
      else if b = NegZero then a
      else round_double (fin_val a + fin_val b))"

definition js_sub :: "jsnum \<Rightarrow> jsnum \<Rightarrow> jsnum" where
  "js_sub a b = js_add a (js_neg b)"

definition js_mul :: "jsnum \<Rightarrow> jsnum \<Rightarrow> jsnum" where
  "js_mul a b =
     (if a = NaN \<or> b = NaN then NaN
      else if js_is_inf a \<or> js_is_inf b
        then (if js_is_zero a \<or> js_is_zero b then NaN else js_inf (js_sign a \<noteq> js_sign b))
      else if js_is_zero a \<or> js_is_zero b then js_zero (js_sign a \<noteq> js_sign b)
      else round_double (fin_val a * fin_val b))"

definition js_div :: "jsnum \<Rightarrow> jsnum \<Rightarrow> jsnum" where
  "js_div a b =
     (if a = NaN \<or> b = NaN then NaN
      else if js_is_inf a
        then (if js_is_inf b then NaN else js_inf (js_sign a \<noteq> js_sign b))
      else if js_is_inf b then js_zero (js_sign a \<noteq> js_sign b)
      else if js_is_zero b
        then (if js_is_zero a then NaN else js_inf (js_sign a \<noteq> js_sign b))
      else if js_is_zero a then js_zero (js_sign a \<noteq> js_sign b)
      else round_double (fin_val a / fin_val b))"

text \<open>
  The comparisons \<open><\<close>, \<open><=\<close>, \<open>>=\<close> and \<open>===\<close>: false on NaN, and the two zeros
  are equal.
\<close>

definition js_lt :: "jsnum \<Rightarrow> jsnum \<Rightarrow> bool" where
  "js_lt a b =
     (if a = NaN \<or> b = NaN then False
      else if a = PosInf \<or> b = NegInf then False
      else if a = NegInf \<or> b = PosInf then True
      else fin_val a < fin_val b)"

definition js_eq :: "jsnum \<Rightarrow> jsnum \<Rightarrow> bool" where
  "js_eq a b =
     (if a = NaN \<or> b = NaN then False
      else if js_is_inf a \<or> js_is_inf b then a = b
      else fin_val a = fin_val b)"

definition js_le :: "jsnum \<Rightarrow> jsnum \<Rightarrow> bool" where
  "js_le a b = (js_lt a b \<or> js_eq a b)"

definition js_ge :: "jsnum \<Rightarrow> jsnum \<Rightarrow> bool" where
  "js_ge a b = (js_lt b a \<or> js_eq a b)"

section \<open>RAG classifier and spread calculator\<close>

datatype RAGStatus = green | amber | red

text \<open>\<open>RAG_THRESHOLD.GREEN_MAX\<close>.\<close>

definition GREEN_MAX :: jsnum where
  "GREEN_MAX = Fin 2"

text \<open>A parameter of type \<open>number | null\<close> is an option: \<open>None\<close> is \<open>null\<close>.\<close>

definition classifyRAG :: "jsnum option \<Rightarrow> RAGStatus" where
  "classifyRAG spread =
     (case spread of
        None \<Rightarrow> red
      | Some s \<Rightarrow>
          if \<not> isFinite s then red
          else if js_le s GREEN_MAX then green
          else amber)"

text \<open>
  A parameter of type \<open>number | null | undefined\<close> is an option as well: the guard
  \<open>bid == null\<close> takes \<open>null\<close> and \<open>undefined\<close> alike, and both are \<open>None\<close>.
\<close>

definition calculateSpread :: "jsnum option \<Rightarrow> jsnum option \<Rightarrow> jsnum option" where
  "calculateSpread bid ask =
     (case (bid, ask) of
        (Some b, Some a) \<Rightarrow>
          if \<not> isFinite b \<or> \<not> isFinite a then None
          else if js_le b (Fin 0) \<or> js_le a (Fin 0) then None
          else if js_lt a b then None
          else if js_eq b a then Some (Fin 0)
          else
            (let midPrice = js_div (js_add b a) (Fin 2);
                 spread = js_mul (js_div (js_sub a b) midPrice) (Fin 100)
             in Some spread)
      | _ \<Rightarrow> None)"

definition calculateAbsoluteSpread :: "jsnum option \<Rightarrow> jsnum option \<Rightarrow> jsnum option" where
  "calculateAbsoluteSpread bid ask =
     (case (bid, ask) of
        (Some b, Some a) \<Rightarrow>
          if \<not> isFinite b \<or> \<not> isFinite a then None
          else if js_le b (Fin 0) \<or> js_le a (Fin 0) then None
          else Some (js_sub a b)
      | _ \<Rightarrow> None)"

section \<open>Market records and comparators\<close>

record MarketData =
  tickerId :: string
  market :: string
  baseSymbol :: string
  targetSymbol :: string
  highestBid :: "jsnum option"
  lowestAsk :: "jsnum option"
  spread :: "jsnum option"
  spreadPercentage :: "jsnum option"
  ragStatus :: RAGStatus
  lastPrice :: jsnum
  volume24h :: jsnum
  high24h :: "jsnum option"
  low24h :: "jsnum option"

text \<open>
  \<open>SortField\<close> is the union of the string literals \<open>'market'\<close>, \<open>'spread'\<close>, \<open>'volume'\<close>,
  \<open>'price'\<close> and \<open>'ragStatus'\<close>; \<open>SortOrder\<close> is \<open>'asc' | 'desc'\<close>.
\<close>

datatype SortField = F_market | F_spread | F_volume | F_price | F_ragStatus

datatype SortOrder = asc | desc

record SortConfig =
  field :: SortField
  order :: SortOrder

text \<open>
  \<open>String.prototype.localeCompare\<close> is the collation of the host; the comparators take it
  as the parameter \<open>localeCompare\<close>.
\<close>

definition compareByMarket :: "(string \<Rightarrow> string \<Rightarrow> jsnum) \<Rightarrow> MarketData \<Rightarrow> MarketData \<Rightarrow> jsnum" where
  "compareByMarket localeCompare a b = localeCompare (market a) (market b)"

definition compareBySpread :: "MarketData \<Rightarrow> MarketData \<Rightarrow> jsnum" where
  "compareBySpread a b =
     (case (spread a, spread b) of
        (None, None) \<Rightarrow> Fin 0
      | (None, Some y) \<Rightarrow> Fin 1
      | (Some x, None) \<Rightarrow> Fin (- 1)
      | (Some x, Some y) \<Rightarrow> js_sub x y)"

definition compareByVolume :: "MarketData \<Rightarrow> MarketData \<Rightarrow> jsnum" where
  "compareByVolume a b = js_sub (volume24h a) (volume24h b)"

definition compareByPrice :: "MarketData \<Rightarrow> MarketData \<Rightarrow> jsnum" where
  "compareByPrice a b = js_sub (lastPrice a) (lastPrice b)"

fun ragOrder :: "RAGStatus \<Rightarrow> jsnum" where
  "ragOrder green = Fin 0"
| "ragOrder amber = Fin 1"
| "ragOrder red = Fin 2"

definition compareByRAGStatus :: "MarketData \<Rightarrow> MarketData \<Rightarrow> jsnum" where
  "compareByRAGStatus a b = js_sub (ragOrder (ragStatus a)) (ragOrder (ragStatus b))"

text \<open>The \<open>default\<close> branch of the switch is outside the type \<open>SortField\<close>.\<close>

fun compareByField ::
  "(string \<Rightarrow> string \<Rightarrow> jsnum) \<Rightarrow> MarketData \<Rightarrow> MarketData \<Rightarrow> SortField \<Rightarrow> jsnum" where
  "compareByField localeCompare a b F_market = compareByMarket localeCompare a b"
| "compareByField localeCompare a b F_spread = compareBySpread a b"
| "compareByField localeCompare a b F_volume = compareByVolume a b"
| "compareByField localeCompare a b F_price = compareByPrice a b"
| "compareByField localeCompare a b F_ragStatus = compareByRAGStatus a b"

section \<open>Array operations\<close>

text \<open>The property \<open>length\<close> of an array, a number.\<close>

definition array_length :: "'a list \<Rightarrow> jsnum" where
  "array_length xs = Fin (of_nat (length xs))"

text \<open>\<open>Array.prototype.findIndex\<close>: \<open>None\<close> is the result \<open>-1\<close>.\<close>

fun findIndex :: "('a \<Rightarrow> bool) \<Rightarrow> 'a list \<Rightarrow> nat option" where
  "findIndex p [] = None"
| "findIndex p (x # xs) = (if p x then Some 0 else map_option Suc (findIndex p xs))"

text \<open>\<open>xs.filter((_, i) => i !== k)\<close>.\<close>

definition remove_index :: "nat \<Rightarrow> 'a list \<Rightarrow> 'a list" where
  "remove_index k xs = take k xs @ drop (Suc k) xs"

text \<open>
  \<open>Array.prototype.sort\<close> with a comparator. The language fixes the result only for a
  consistent comparator: the stable arrangement in which no element is followed by one the
  comparator puts before it. Insertion from the right computes that arrangement; every
  element moves behind exactly the elements it compares greater than. A comparator result
  of NaN counts as \<open>+0\<close>.
\<close>

definition sort_compare :: "('a \<Rightarrow> 'a \<Rightarrow> jsnum) \<Rightarrow> 'a \<Rightarrow> 'a \<Rightarrow> jsnum" where
  "sort_compare comparefn x y = (let v = comparefn x y in if isNaN v then Fin 0 else v)"

fun sort_insert :: "('a \<Rightarrow> 'a \<Rightarrow> jsnum) \<Rightarrow> 'a \<Rightarrow> 'a list \<Rightarrow> 'a list" where
  "sort_insert comparefn x [] = [x]"
| "sort_insert comparefn x (y # ys) =
     (if js_lt (Fin 0) (sort_compare comparefn x y) then y # sort_insert comparefn x ys
      else x # y # ys)"

definition array_sort :: "('a \<Rightarrow> 'a \<Rightarrow> jsnum) \<Rightarrow> 'a list \<Rightarrow> 'a list" where
  "array_sort comparefn xs = foldr (sort_insert comparefn) xs []"

section \<open>Compound sort engine\<close>

text \<open>
  The state of \<open>useMarketSorting\<close> is the chain \<open>sortConfigs\<close>, created as
  \<open>[defaultSort]\<close>; \<open>toggleSort\<close> maps the current chain to the next one. The cap
  \<open>maxSorts\<close> is a number, and \<open>current.length >= maxSorts\<close> compares the length of the
  chain with it.
\<close>

definition initialSortConfigs :: "SortConfig \<Rightarrow> SortConfig list" where
  "initialSortConfigs defaultSort = [defaultSort]"

definition toggleSort :: "SortConfig \<Rightarrow> jsnum \<Rightarrow> SortField \<Rightarrow> SortConfig list \<Rightarrow> SortConfig list" where
  "toggleSort defaultSort maxSorts f current =
     (case findIndex (\<lambda>config. field config = f) current of
        Some existingIndex \<Rightarrow>
          (let existing = current ! existingIndex
           in if order existing = desc
              then current[existingIndex := \<lparr>field = f, order = asc\<rparr>]
              else (let filtered = remove_index existingIndex current
                    in if length filtered = 0 then [defaultSort] else filtered))
      | None \<Rightarrow>
          if js_ge (array_length current) maxSorts
          then drop 1 current @ [\<lparr>field = f, order = desc\<rparr>]
          else current @ [\<lparr>field = f, order = desc\<rparr>])"

text \<open>The chain after a sequence of \<open>toggleSort\<close> calls, oldest call first.\<close>

definition toggleSorts :: "SortConfig \<Rightarrow> jsnum \<Rightarrow> SortField list \<Rightarrow> SortConfig list \<Rightarrow> SortConfig list" where
  "toggleSorts defaultSort maxSorts fs current =
     foldl (\<lambda>chain f. toggleSort defaultSort maxSorts f chain) current fs"

definition clearSorts :: "SortConfig \<Rightarrow> SortConfig list" where
  "clearSorts defaultSort = [defaultSort]"

text \<open>The comparator of \<open>sortMarkets\<close>: the loop over the chain.\<close>

fun chain_compare ::
  "(string \<Rightarrow> string \<Rightarrow> jsnum) \<Rightarrow> SortConfig list \<Rightarrow> MarketData \<Rightarrow> MarketData \<Rightarrow> jsnum" where
  "chain_compare localeCompare [] a b = Fin 0"
| "chain_compare localeCompare (config # configs) a b =
     (let comparison = compareByField localeCompare a b (field config)
      in if \<not> js_eq comparison (Fin 0)
         then (if order config = asc then comparison else js_neg comparison)
         else chain_compare localeCompare configs a b)"

definition sortMarkets ::
  "(string \<Rightarrow> string \<Rightarrow> jsnum) \<Rightarrow> SortConfig list \<Rightarrow> MarketData list \<Rightarrow> MarketData list" where
  "sortMarkets localeCompare sortConfigs markets =
     array_sort (chain_compare localeCompare sortConfigs) markets"

section \<open>Market data assembler\<close>

record MarketPair =
  ticker_id :: string
  base :: string
  target :: string

record MarketSummary =
  ticker_id :: string
  base_currency :: string
  target_currency :: string
  last_price :: jsnum
  base_volume :: jsnum
  target_volume :: jsnum
  bid :: "jsnum option"
  ask :: "jsnum option"
  high :: jsnum
  low :: jsnum

text \<open>
  \<open>new Map(summaries.map((s) => [s.ticker_id, s]))\<close>: of two summaries with one key the
  later one stays.
\<close>

definition summaryMap :: "MarketSummary list \<Rightarrow> string \<rightharpoonup> MarketSummary" where
  "summaryMap summaries = map_of (rev (map (\<lambda>s. (MarketSummary.ticker_id s, s)) summaries))"

definition processMarket :: "(string \<rightharpoonup> MarketSummary) \<Rightarrow> MarketPair \<Rightarrow> MarketData" where
  "processMarket smap pair =
     (let summary = smap (MarketPair.ticker_id pair);
          bid = (case summary of None \<Rightarrow> None | Some s \<Rightarrow> MarketSummary.bid s);
          ask = (case summary of None \<Rightarrow> None | Some s \<Rightarrow> MarketSummary.ask s);
          spread = calculateSpread bid ask;
          ragStatus = classifyRAG spread
      in \<lparr>tickerId = MarketPair.ticker_id pair,
          market = base pair @ ''/'' @ target pair,
          baseSymbol = base pair,
          targetSymbol = target pair,
          highestBid = bid,
          lowestAsk = ask,
          spread = spread,
          spreadPercentage = spread,
          ragStatus = ragStatus,
          lastPrice = (case summary of None \<Rightarrow> Fin 0 | Some s \<Rightarrow> last_price s),
          volume24h = (case summary of None \<Rightarrow> Fin 0 | Some s \<Rightarrow> base_volume s),
          high24h = map_option high summary,
          low24h = map_option low summary\<rparr>)"

text \<open>
  The body of \<open>fetchMarkets\<close> from the two fetched lists to the list handed to
  \<open>setMarkets\<close>.
\<close>

definition fetchMarkets :: "MarketPair list \<Rightarrow> MarketSummary list \<Rightarrow> MarketData list" where
  "fetchMarkets pairs summaries =
     (let processedMarkets = map (processMarket (summaryMap summaries)) pairs
      in array_sort (\<lambda>a b. js_sub (volume24h b) (volume24h a)) processedMarkets)"

section \<open>Depth analyzer\<close>

record OrderBookEntry =
  price :: jsnum
  quantity :: jsnum

record ValidatedMarketDepth =
  ticker_id :: string
  timestamp :: jsnum
  bids :: "OrderBookEntry list"
  asks :: "OrderBookEntry list"

record PriceRange =
  range_min :: jsnum
  range_max :: jsnum

record MarketDepthAnalysis =
  tickerId :: string
  totalBidQuantity :: jsnum
  totalAskQuantity :: jsnum
  bidPriceRange :: "PriceRange option"
  askPriceRange :: "PriceRange option"
  bidDepth :: nat
  askDepth :: nat
  spreadAtDepth :: "jsnum option"
  timestamp :: jsnum

text \<open>
  \<open>Math.min\<close> and \<open>Math.max\<close> of a spread array: NaN if an argument is NaN; \<open>-0\<close> is
  below \<open>+0\<close>; of no argument \<open>Math.min\<close> is \<open>Infinity\<close> and \<open>Math.max\<close> is \<open>-Infinity\<close>.
\<close>

definition min2 :: "jsnum \<Rightarrow> jsnum \<Rightarrow> jsnum" where
  "min2 a b =
     (if a = NaN \<or> b = NaN then NaN
      else if js_lt b a then b
      else if js_lt a b then a
      else if b = NegZero then b else a)"

definition max2 :: "jsnum \<Rightarrow> jsnum \<Rightarrow> jsnum" where
  "max2 a b =
     (if a = NaN \<or> b = NaN then NaN
      else if js_lt a b then b
      else if js_lt b a then a
      else if a = NegZero then b else a)"

definition Math_min :: "jsnum list \<Rightarrow> jsnum" where
  "Math_min xs = foldl min2 PosInf xs"

definition Math_max :: "jsnum list \<Rightarrow> jsnum" where
  "Math_max xs = foldl max2 NegInf xs"

definition analyzeOrderBook :: "ValidatedMarketDepth \<Rightarrow> MarketDepthAnalysis" where
  "analyzeOrderBook depthData =
     (let totalBidQuantity = foldl (\<lambda>sum bid. js_add sum (quantity bid)) (Fin 0) (bids depthData);
          totalAskQuantity = foldl (\<lambda>sum ask. js_add sum (quantity ask)) (Fin 0) (asks depthData);
          bidPrices = map price (bids depthData);
          askPrices = map price (asks depthData);
          bidPriceRange =
            (if 0 < length bidPrices
             then Some \<lparr>range_min = Math_min bidPrices, range_max = Math_max bidPrices\<rparr>
             else None);
          askPriceRange =
            (if 0 < length askPrices
             then Some \<lparr>range_min = Math_min askPrices, range_max = Math_max askPrices\<rparr>
             else None);
          spreadAtDepth =
            (case (bidPriceRange, askPriceRange) of
               (Some bidRange, Some askRange) \<Rightarrow>
                 Some (js_mul
                   (js_div (js_sub (range_min askRange) (range_max bidRange))
                      (js_mul (Fin (1 / 2)) (js_add (range_min askRange) (range_max bidRange))))
                   (Fin 100))
             | _ \<Rightarrow> None)
      in \<lparr>tickerId = ValidatedMarketDepth.ticker_id depthData,
          totalBidQuantity = totalBidQuantity,
          totalAskQuantity = totalAskQuantity,
          bidPriceRange = bidPriceRange,
          askPriceRange = askPriceRange,
          bidDepth = length (bids depthData),
          askDepth = length (asks depthData),
          spreadAtDepth = spreadAtDepth,
          timestamp = ValidatedMarketDepth.timestamp depthData\<rparr>)"

section \<open>Validator\<close>

text \<open>
  A value of type \<open>unknown\<close>, as JSON parsing delivers it, with \<open>undefined\<close> for what is
  absent. An object is the list of its properties, each key once.
\<close>

datatype jsval =
    JUndefined
  | JNull
  | JBool bool
  | JNum jsnum
  | JStr string
  | JArr "jsval list"
  | JObj "(string \<times> jsval) list"

text \<open>\<open>data[key]\<close>: the property of an object, \<open>undefined\<close> when there is none.\<close>

fun get_prop :: "string \<Rightarrow> jsval \<Rightarrow> jsval" where
  "get_prop key (JObj props) = (case map_of props key of None \<Rightarrow> JUndefined | Some v \<Rightarrow> v)"
| "get_prop key _ = JUndefined"

text \<open>
  The schemas are built from the combinators of the validation library (zod). A schema
  maps a value to the parsed value or to the list of the issues found; an object and an
  array report the issues of all their members. An issue has a code and, where the schema
  gives one, a message.
\<close>

datatype issue_code = invalid_type | too_small

datatype issue = Issue issue_code "string option"

type_synonym 'a parse_result = "issue list + 'a"

definition ap :: "('a \<Rightarrow> 'b) parse_result \<Rightarrow> 'a parse_result \<Rightarrow> 'b parse_result" where
  "ap rf rx =
     (case (rf, rx) of
        (Inr f, Inr x) \<Rightarrow> Inr (f x)
      | (Inl issues, Inr x) \<Rightarrow> Inl issues
      | (Inr f, Inl issues) \<Rightarrow> Inl issues
      | (Inl issues1, Inl issues2) \<Rightarrow> Inl (issues1 @ issues2))"

text \<open>\<open>z.string()\<close> and \<open>z.string().min(1, message)\<close>.\<close>

definition z_string :: "jsval \<Rightarrow> string parse_result" where
  "z_string v = (case v of JStr s \<Rightarrow> Inr s | _ \<Rightarrow> Inl [Issue invalid_type None])"

definition z_string_min1 :: "string \<Rightarrow> jsval \<Rightarrow> string parse_result" where
  "z_string_min1 message v =
     (case z_string v of
        Inl issues \<Rightarrow> Inl issues
      | Inr s \<Rightarrow> if length s < 1 then Inl [Issue too_small (Some message)] else Inr s)"

text \<open>
  \<open>z.number()\<close> takes a number that is not NaN; \<open>.nonnegative(message)\<close> adds the check
  \<open>0 <= n\<close>.
\<close>

definition z_number :: "jsval \<Rightarrow> jsnum parse_result" where
  "z_number v =
     (case v of
        JNum n \<Rightarrow> if isNaN n then Inl [Issue invalid_type None] else Inr n
      | _ \<Rightarrow> Inl [Issue invalid_type None])"

definition nonnegative :: "string option \<Rightarrow> jsnum parse_result \<Rightarrow> jsnum parse_result" where
  "nonnegative message r =
     (case r of
        Inl issues \<Rightarrow> Inl issues
      | Inr n \<Rightarrow> if js_lt n (Fin 0) then Inl [Issue too_small message] else Inr n)"

text \<open>
  The coercion \<open>Number(val)\<close> of the language is the parameter \<open>Number\<close> of every
  schema that coerces. \<open>z.coerce.number()\<close> coerces and then parses as \<open>z.number()\<close>.
\<close>

definition z_coerce_number :: "(jsval \<Rightarrow> jsnum) \<Rightarrow> jsval \<Rightarrow> jsnum parse_result" where
  "z_coerce_number Number v = z_number (JNum (Number v))"

text \<open>\<open>.optional()\<close> takes \<open>undefined\<close>, \<open>.nullable()\<close> takes \<open>null\<close>; both as \<open>None\<close>.\<close>

definition z_optional :: "(jsval \<Rightarrow> 'a parse_result) \<Rightarrow> jsval \<Rightarrow> 'a option parse_result" where
  "z_optional schema v = (if v = JUndefined then Inr None else map_sum id Some (schema v))"

definition z_nullable :: "(jsval \<Rightarrow> 'a parse_result) \<Rightarrow> jsval \<Rightarrow> 'a option parse_result" where
  "z_nullable schema v = (if v = JNull then Inr None else map_sum id Some (schema v))"

text \<open>\<open>z.array(schema)\<close>.\<close>

fun parse_all :: "(jsval \<Rightarrow> 'a parse_result) \<Rightarrow> jsval list \<Rightarrow> 'a list parse_result" where
  "parse_all schema [] = Inr []"
| "parse_all schema (v # vs) = ap (ap (Inr (#)) (schema v)) (parse_all schema vs)"

definition z_array :: "(jsval \<Rightarrow> 'a parse_result) \<Rightarrow> jsval \<Rightarrow> 'a list parse_result" where
  "z_array schema v = (case v of JArr vs \<Rightarrow> parse_all schema vs | _ \<Rightarrow> Inl [Issue invalid_type None])"

text \<open>
  \<open>optionalNumber\<close>: the preprocessing step, then \<open>z.number().nonnegative().nullable()\<close>.
\<close>

definition optionalNumber :: "(jsval \<Rightarrow> jsnum) \<Rightarrow> jsval \<Rightarrow> jsnum option parse_result" where
  "optionalNumber Number val =
     (let preprocessed =
        (if val = JUndefined \<or> val = JNull \<or> val = JStr '''' then JNull
         else (let num = Number val in if isNaN num then JNull else JNum num))
      in z_nullable (\<lambda>v. nonnegative None (z_number v)) preprocessed)"

record RawMarketSummaryItem =
  trading_pairs :: string
  lowest_price_24h :: jsnum
  highest_price_24h :: jsnum
  highest_bid :: "jsnum option"
  lowest_ask :: "jsnum option"
  base_volume :: jsnum
  quote_volume :: jsnum
  last_price :: jsnum
  price_change_percent_24h :: "jsnum option"

definition RawMarketSummaryItemSchema ::
  "(jsval \<Rightarrow> jsnum) \<Rightarrow> jsval \<Rightarrow> RawMarketSummaryItem parse_result" where
  "RawMarketSummaryItemSchema Number v =
     (case v of
        JObj props \<Rightarrow>
          ap (ap (ap (ap (ap (ap (ap (ap (ap
            (Inr (\<lambda>a b c d e f g h i.
               \<lparr>trading_pairs = a, lowest_price_24h = b, highest_price_24h = c,
                highest_bid = d, lowest_ask = e, base_volume = f, quote_volume = g,
                last_price = h, price_change_percent_24h = i\<rparr>))
            (z_string_min1 ''trading_pairs is required'' (get_prop ''trading_pairs'' v)))
            (nonnegative (Some ''lowest_price_24h must be non-negative'')
               (z_coerce_number Number (get_prop ''lowest_price_24h'' v))))
            (nonnegative (Some ''highest_price_24h must be non-negative'')
               (z_coerce_number Number (get_prop ''highest_price_24h'' v))))
            (optionalNumber Number (get_prop ''highest_bid'' v)))
            (optionalNumber Number (get_prop ''lowest_ask'' v)))
            (nonnegative (Some ''base_volume must be non-negative'')
               (z_coerce_number Number (get_prop ''base_volume'' v))))
            (nonnegative (Some ''quote_volume must be non-negative'')
               (z_coerce_number Number (get_prop ''quote_volume'' v))))
            (nonnegative (Some ''last_price must be non-negative'')
               (z_coerce_number Number (get_prop ''last_price'' v))))
            (z_optional (z_coerce_number Number) (get_prop ''price_change_percent_24h'' v))
      | _ \<Rightarrow> Inl [Issue invalid_type None])"

record RawMarketSummaryResponse =
  response_timestamp :: string
  summary :: "RawMarketSummaryItem list"

definition RawMarketSummaryResponseSchema ::
  "(jsval \<Rightarrow> jsnum) \<Rightarrow> jsval \<Rightarrow> RawMarketSummaryResponse parse_result" where
  "RawMarketSummaryResponseSchema Number v =
     (case v of
        JObj props \<Rightarrow>
          ap (ap (Inr (\<lambda>t s. \<lparr>response_timestamp = t, summary = s\<rparr>))
            (z_string (get_prop ''timestamp'' v)))
            (z_array (RawMarketSummaryItemSchema Number) (get_prop ''summary'' v))
      | _ \<Rightarrow> Inl [Issue invalid_type None])"

text \<open>\<open>String.prototype.split\<close> with a separator of one character.\<close>

fun split :: "char \<Rightarrow> string \<Rightarrow> string list" where
  "split sep [] = [[]]"
| "split sep (c # cs) =
     (if c = sep then [] # split sep cs
      else (case split sep cs of part # parts \<Rightarrow> (c # part) # parts | [] \<Rightarrow> [[c]]))"

definition transformItem :: "RawMarketSummaryItem \<Rightarrow> MarketSummary" where
  "transformItem item =
     (let separator = (if CHR ''-'' \<in> set (trading_pairs item) then CHR ''-'' else CHR ''_'');
          parts = split separator (trading_pairs item);
          base = (if 0 < length parts then parts ! 0 else '''');
          target = (if 1 < length parts then parts ! 1 else '''');
          ticker_id = base @ ''_'' @ target
      in \<lparr>MarketSummary.ticker_id = ticker_id,
          base_currency = base,
          target_currency = target,
          last_price = RawMarketSummaryItem.last_price item,
          base_volume = RawMarketSummaryItem.base_volume item,
          target_volume = quote_volume item,
          bid = highest_bid item,
          ask = lowest_ask item,
          high = highest_price_24h item,
          low = lowest_price_24h item\<rparr>)"

text \<open>
  The error that \<open>validateMarketSummary\<close> throws: its message joins the messages of the
  issues.
\<close>

datatype error = ValidationError "issue list"

definition validateMarketSummary :: "(jsval \<Rightarrow> jsnum) \<Rightarrow> jsval \<Rightarrow> error + MarketSummary list" where
  "validateMarketSummary Number data =
     (case RawMarketSummaryResponseSchema Number data of
        Inl issues \<Rightarrow> Inl (ValidationError issues)
      | Inr rawResponse \<Rightarrow> Inr (map transformItem (summary rawResponse)))"

definition safeValidateMarketSummary :: "(jsval \<Rightarrow> jsnum) \<Rightarrow> jsval \<Rightarrow> MarketSummary list option" where
  "safeValidateMarketSummary Number data =
     (case validateMarketSummary Number data of Inl e \<Rightarrow> None | Inr summaries \<Rightarrow> Some summaries)"

section \<open>Notions of the specification\<close>

text \<open>
  The null rules of the spread as the specification words them: a bid or ask that is
  null or undefined, not finite, or not positive; and the crossed book, where both are
  finite and the ask is below the bid.
\<close>

definition inputs_invalid :: "jsnum option \<Rightarrow> jsnum option \<Rightarrow> bool" where
  "inputs_invalid bidPrice askPrice =
     (case (bidPrice, askPrice) of
        (Some b, Some a) \<Rightarrow> \<not> isFinite b \<or> \<not> isFinite a \<or> fin_val b \<le> 0 \<or> fin_val a \<le> 0
      | _ \<Rightarrow> True)"

definition crossed_book :: "jsnum option \<Rightarrow> jsnum option \<Rightarrow> bool" where
  "crossed_book bidPrice askPrice =
     (case (bidPrice, askPrice) of
        (Some b, Some a) \<Rightarrow> isFinite b \<and> isFinite a \<and> fin_val a < fin_val b
      | _ \<Rightarrow> False)"

text \<open>
  The entries that stay when a field that is not in the chain is toggled: at the cap the
  oldest entry goes.
\<close>

definition kept :: "jsnum \<Rightarrow> SortConfig list \<Rightarrow> SortConfig list" where
  "kept maxSorts current =
     (if js_ge (array_length current) maxSorts then drop 1 current else current)"

text \<open>
  In the list \<open>ms\<close> every record with \<open>P\<close> stands before every record with \<open>Q\<close>: no
  record with \<open>Q\<close> is followed by one with \<open>P\<close>.
\<close>

definition all_before :: "('a \<Rightarrow> bool) \<Rightarrow> ('a \<Rightarrow> bool) \<Rightarrow> 'a list \<Rightarrow> bool" where
  "all_before P Q ms = sorted_wrt (\<lambda>a b. \<not> (Q a \<and> P b)) ms"

definition has_rating :: "RAGStatus \<Rightarrow> MarketData \<Rightarrow> bool" where
  "has_rating s m = (ragStatus m = s)"

definition null_spread :: "MarketData \<Rightarrow> bool" where
  "null_spread m = (spread m = None)"

definition some_spread :: "MarketData \<Rightarrow> bool" where
  "some_spread m = (spread m \<noteq> None)"

text \<open>The priority of a rating under the comparator of the sort engine: green is lowest.\<close>

fun rag_rank :: "RAGStatus \<Rightarrow> int" where
  "rag_rank green = 0"
| "rag_rank amber = 1"
| "rag_rank red = 2"

text \<open>
  The sum of a list of numbers in the order of the list, as \<open>reduce\<close> adds them up
  from 0; the least and the greatest number of a list; and the spread in percent of the
  midpoint between the best bid and the best ask.
\<close>

definition js_sum :: "jsnum list \<Rightarrow> jsnum" where
  "js_sum xs = foldl js_add (Fin 0) xs"

definition is_min_of :: "jsnum \<Rightarrow> jsnum list \<Rightarrow> bool" where
  "is_min_of m xs = (m \<in> set xs \<and> list_all (\<lambda>x. js_le m x) xs)"

definition is_max_of :: "jsnum \<Rightarrow> jsnum list \<Rightarrow> bool" where
  "is_max_of m xs = (m \<in> set xs \<and> list_all (\<lambda>x. js_le x m) xs)"

definition spread_percent :: "jsnum \<Rightarrow> jsnum \<Rightarrow> jsnum" where
  "spread_percent bestBid bestAsk =
     (let midpoint = js_mul (Fin (1 / 2)) (js_add bestAsk bestBid)
      in js_mul (js_div (js_sub bestAsk bestBid) midpoint) (Fin 100))"

definition no_NaN_price :: "OrderBookEntry list \<Rightarrow> bool" where
  "no_NaN_price entries = list_all (\<lambda>e. price e \<noteq> NaN) entries"

text \<open>
  A value coerces to a negative number. For the coercion of the language the first three
  conditions follow from the last: \<open>Number(undefined)\<close> is NaN, \<open>Number(null)\<close> and
  \<open>Number('')\<close> are 0.
\<close>

definition coerces_negative :: "(jsval \<Rightarrow> jsnum) \<Rightarrow> jsval \<Rightarrow> bool" where
  "coerces_negative Number v =
     (v \<noteq> JUndefined \<and> v \<noteq> JNull \<and> v \<noteq> JStr '''' \<and> js_lt (Number v) (Fin 0))"

section \<open>Sample data\<close>

text \<open>
  A collation under which all strings are equal, for the parameter \<open>localeCompare\<close>
  where the chain has no entry for the market name.
\<close>

definition equalCollation :: "string \<Rightarrow> string \<Rightarrow> jsnum" where
  "equalCollation a b = Fin 0"

text \<open>The record that the tests of the comparators build, \<open>createMockMarket({})\<close>.\<close>

definition createMockMarket :: MarketData where
  "createMockMarket =
     \<lparr>MarketData.tickerId = ''TEST_USDT'', market = ''TEST/USDT'', baseSymbol = ''TEST'',
      targetSymbol = ''USDT'', highestBid = Some (Fin 100), lowestAsk = Some (Fin 102),
      spread = Some (Fin 1), spreadPercentage = Some (Fin 1), ragStatus = green,
      lastPrice = Fin 101, volume24h = Fin 1000, high24h = None, low24h = None\<rparr>"

text \<open>The pairs of the tests of \<open>useMarketData\<close>, and the summary of the second pair.\<close>

definition mockPairs :: "MarketPair list" where
  "mockPairs =
     [\<lparr>MarketPair.ticker_id = ''BTC_USDT'', base = ''BTC'', target = ''USDT''\<rparr>,
      \<lparr>MarketPair.ticker_id = ''ETH_USDT'', base = ''ETH'', target = ''USDT''\<rparr>]"

definition ethSummary :: MarketSummary where
  "ethSummary =
     \<lparr>MarketSummary.ticker_id = ''ETH_USDT'', base_currency = ''ETH'', target_currency = ''USDT'',
      last_price = Fin 1210, base_volume = Fin 500, target_volume = Fin 605000,
      bid = Some (Fin 1200), ask = Some (Fin 1225), high = Fin 1300, low = Fin 1100\<rparr>"

text \<open>
  The depth snapshot of the scenario in the specification; a decimal literal is the double
  nearest to it.
\<close>

definition depthScenario :: ValidatedMarketDepth where
  "depthScenario =
     \<lparr>ValidatedMarketDepth.ticker_id = ''BTC_USDT'', timestamp = Fin 1700000000000,
      bids = [\<lparr>price = Fin 16600, quantity = round_double (5 / 10)\<rparr>,
              \<lparr>price = Fin 16590, quantity = round_double (12 / 10)\<rparr>,
              \<lparr>price = Fin 16580, quantity = round_double (8 / 10)\<rparr>],
      asks = [\<lparr>price = Fin 16610, quantity = round_double (6 / 10)\<rparr>,
              \<lparr>price = Fin 16620, quantity = round_double (10 / 10)\<rparr>,
              \<lparr>price = Fin 16630, quantity = round_double (4 / 10)\<rparr>]\<rparr>"

text \<open>
  \<open>Number\<close> on the values of the scenario below: \<open>undefined\<close>, \<open>null\<close>, booleans,
  numbers, and strings of decimal digits with an optional minus sign. It stands for the
  coercion in that scenario only: other strings, arrays and objects are NaN here.
\<close>

fun digits_value :: "int \<Rightarrow> string \<Rightarrow> int option" where
  "digits_value acc [] = Some acc"
| "digits_value acc (c # cs) =
     (let n = (of_char c :: int)
      in if 48 \<le> n \<and> n \<le> 57 then digits_value (10 * acc + (n - 48)) cs else None)"

definition decimal_Number :: "jsval \<Rightarrow> jsnum" where
  "decimal_Number v =
     (case v of
        JUndefined \<Rightarrow> NaN
      | JNull \<Rightarrow> Fin 0
      | JBool b \<Rightarrow> Fin (if b then 1 else 0)
      | JNum n \<Rightarrow> n
      | JStr s \<Rightarrow>
          (case s of
             [] \<Rightarrow> Fin 0
           | c # cs \<Rightarrow>
               if c = CHR ''-'' then
                 (case (cs, digits_value 0 cs) of
                    (d # ds, Some n) \<Rightarrow> if n = 0 then NegZero else round_double (- of_int n)
                  | _ \<Rightarrow> NaN)
               else (case digits_value 0 s of Some n \<Rightarrow> round_double (of_int n) | None \<Rightarrow> NaN))
      | _ \<Rightarrow> NaN)"

text \<open>A summary payload with one item, whose highest bid is the string \<open>-5\<close>.\<close>

definition negativeBidItem :: "(string \<times> jsval) list" where
  "negativeBidItem =
     [(''trading_pairs'', JStr ''BTC-USDT''),
      (''lowest_price_24h'', JStr ''16000''),
      (''highest_price_24h'', JStr ''17000''),
      (''highest_bid'', JStr ''-5''),
      (''lowest_ask'', JStr ''16704''),
      (''base_volume'', JStr ''1000''),
      (''quote_volume'', JStr ''16640000''),
      (''last_price'', JStr ''16640''),
      (''price_change_percent_24h'', JStr ''1'')]"

definition negativeBidPayload :: "(string \<times> jsval) list" where
  "negativeBidPayload =
     [(''timestamp'', JStr ''2024-01-01T00:00:00.000Z''),
      (''summary'', JArr [JObj negativeBidItem])]"

section \<open>Comparisons of finite numbers\<close>

lemma js_le_finite: "isFinite a \<Longrightarrow> isFinite b \<Longrightarrow> js_le a b = (fin_val a \<le> fin_val b)"
  by (cases a; cases b) (auto simp: js_le_def js_lt_def js_eq_def)

lemma js_lt_finite: "isFinite a \<Longrightarrow> isFinite b \<Longrightarrow> js_lt a b = (fin_val a < fin_val b)"
  by (cases a; cases b) (auto simp: js_lt_def)

lemma js_eq_finite: "isFinite a \<Longrightarrow> isFinite b \<Longrightarrow> js_eq a b = (fin_val a = fin_val b)"
  by (cases a; cases b) (auto simp: js_eq_def)

section \<open>RAG classification\<close>

text \<open>
  C3. \<open>classifyRAG\<close> is green exactly on a finite spread of at most 2, red exactly on
  null and on a spread that is not finite (NaN or an infinity), and amber exactly on a
  finite spread above 2.
\<close>

theorem classifyRAG_spec:
  "(classifyRAG s = green \<longleftrightarrow> (\<exists>x. s = Some x \<and> isFinite x \<and> fin_val x \<le> 2)) \<and>
   (classifyRAG s = red \<longleftrightarrow> (s = None \<or> (\<exists>x. s = Some x \<and> \<not> isFinite x))) \<and>
   (classifyRAG s = amber \<longleftrightarrow> (\<exists>x. s = Some x \<and> isFinite x \<and> 2 < fin_val x))"
proof (cases s)
  case None
  then show ?thesis by (simp add: classifyRAG_def)
next
  case (Some x)
  show ?thesis
  proof (cases "isFinite x")
    case True
    then have "js_le x GREEN_MAX = (fin_val x \<le> 2)"
      by (simp add: GREEN_MAX_def js_le_finite)
    with True Some show ?thesis by (auto simp: classifyRAG_def)
  next
    case False
    with Some show ?thesis by (simp add: classifyRAG_def)
  qed
qed

section \<open>Absolute spread\<close>

text \<open>
  C6 as stated fails: on the crossed book bid 100, ask 90 the percentage spread is null and
  the absolute spread is the number -10.
\<close>

theorem absolute_spread_null_rules_counterexample:
  "\<not> (calculateAbsoluteSpread (Some (Fin 100)) (Some (Fin 90)) = None
        \<longleftrightarrow> calculateSpread (Some (Fin 100)) (Some (Fin 90)) = None)"
  by code_simp

text \<open>
  C6, amended. \<open>calculateAbsoluteSpread\<close> is null exactly when the bid or the ask is null
  or undefined, not finite, or not positive, and is \<open>ask - bid\<close> in every other case, the
  crossed book included; \<open>calculateSpread\<close> is null exactly in those cases and on the
  crossed book.
\<close>

theorem absolute_spread_null_rules:
  "calculateAbsoluteSpread b a =
     (if inputs_invalid b a then None else Some (js_sub (the a) (the b))) \<and>
   (calculateSpread b a = None \<longleftrightarrow> inputs_invalid b a \<or> crossed_book b a)"
proof (cases b)
  case None
  then show ?thesis
    by (simp add: calculateAbsoluteSpread_def calculateSpread_def inputs_invalid_def)
next
  case b: (Some x)
  show ?thesis
  proof (cases a)
    case None
    with b show ?thesis
      by (simp add: calculateAbsoluteSpread_def calculateSpread_def inputs_invalid_def)
  next
    case a: (Some y)
    show ?thesis
    proof (cases "isFinite x \<and> isFinite y")
      case True
      then have "js_le x (Fin 0) = (fin_val x \<le> 0)" "js_le y (Fin 0) = (fin_val y \<le> 0)"
        "js_lt y x = (fin_val y < fin_val x)"
        by (simp_all add: js_le_finite js_lt_finite)
      with True a b show ?thesis
        by (auto simp: calculateAbsoluteSpread_def calculateSpread_def inputs_invalid_def
            crossed_book_def Let_def)
    next
      case False
      with a b show ?thesis
        by (auto simp: calculateAbsoluteSpread_def calculateSpread_def inputs_invalid_def
            crossed_book_def)
    qed
  qed
qed

text \<open>
  The crossed book bid 100, ask 90 has valid prices: the absolute spread is -10 and the
  percentage spread is null.
\<close>

theorem absolute_spread_null_rules_witness:
  "\<not> inputs_invalid (Some (Fin 100)) (Some (Fin 90)) \<and>
   crossed_book (Some (Fin 100)) (Some (Fin 90)) \<and>
   calculateAbsoluteSpread (Some (Fin 100)) (Some (Fin 90)) = Some (Fin (- 10)) \<and>
   calculateSpread (Some (Fin 100)) (Some (Fin 90)) = None"
proof -
  have valid: "\<not> inputs_invalid (Some (Fin 100)) (Some (Fin 90))"
    by (simp add: inputs_invalid_def)
  have crossed: "crossed_book (Some (Fin 100)) (Some (Fin 90))"
    by (simp add: crossed_book_def)
  have diff: "js_sub (Fin 90) (Fin 100) = Fin (- 10)"
    by code_simp
  show ?thesis
    using absolute_spread_null_rules [of "Some (Fin 100)" "Some (Fin 90)"] valid crossed diff
    by simp
qed

section \<open>Sort chain\<close>

lemma findIndex_None: "findIndex p xs = None \<longleftrightarrow> (\<forall>x \<in> set xs. \<not> p x)"
  by (induction xs) auto

lemma findIndex_less: "findIndex p xs = Some i \<Longrightarrow> i < length xs"
  by (induction xs arbitrary: i) (auto split: if_splits)

lemma findIndex_append_last:
  "\<forall>x \<in> set xs. \<not> p x \<Longrightarrow> p y \<Longrightarrow> findIndex p (xs @ [y]) = Some (length xs)"
  by (induction xs) auto

lemma remove_index_last: "remove_index (length xs) (xs @ [y]) = xs"
  by (simp add: remove_index_def)

lemma length_remove_index: "k < length xs \<Longrightarrow> length (remove_index k xs) = length xs - 1"
  by (auto simp: remove_index_def)

lemma toggle_absent:
  assumes "f \<notin> field ` set current"
  shows "toggleSort d m f current = kept m current @ [\<lparr>field = f, order = desc\<rparr>]"
proof -
  from assms have "findIndex (\<lambda>config. field config = f) current = None"
    by (auto simp: findIndex_None)
  then show ?thesis by (simp add: toggleSort_def kept_def)
qed

lemma toggle_last_desc:
  assumes "f \<notin> field ` set xs"
  shows "toggleSort d m f (xs @ [\<lparr>field = f, order = desc\<rparr>]) = xs @ [\<lparr>field = f, order = asc\<rparr>]"
proof -
  from assms
  have "findIndex (\<lambda>config. field config = f) (xs @ [\<lparr>field = f, order = desc\<rparr>]) = Some (length xs)"
    by (intro findIndex_append_last) auto
  then show ?thesis by (simp add: toggleSort_def)
qed

lemma toggle_last_asc:
  assumes "f \<notin> field ` set xs"
  shows "toggleSort d m f (xs @ [\<lparr>field = f, order = asc\<rparr>]) = (if xs = [] then [d] else xs)"
proof -
  from assms
  have "findIndex (\<lambda>config. field config = f) (xs @ [\<lparr>field = f, order = asc\<rparr>]) = Some (length xs)"
    by (intro findIndex_append_last) auto
  then show ?thesis by (simp add: toggleSort_def remove_index_last)
qed

lemma kept_subset: "set (kept m current) \<subseteq> set current"
  by (auto simp: kept_def dest: in_set_dropD)

text \<open>
  C7. For a field \<open>f\<close> that is not in the chain, the first \<open>toggleSort f\<close> appends
  \<open>f\<close> with direction desc (after dropping the oldest entry when the chain is at the cap),
  the second turns that entry into asc where it stands, and the third removes it: what is left
  are the entries kept by the first toggle, none of which has the field \<open>f\<close>, or the default
  chain \<open>[defaultSort]\<close> when nothing is left.
\<close>

theorem toggle_ring:
  assumes "f \<notin> field ` set current"
  shows "toggleSort d m f current = kept m current @ [\<lparr>field = f, order = desc\<rparr>] \<and>
    toggleSort d m f (toggleSort d m f current) = kept m current @ [\<lparr>field = f, order = asc\<rparr>] \<and>
    toggleSort d m f (toggleSort d m f (toggleSort d m f current)) =
      (if kept m current = [] then [d] else kept m current) \<and>
    f \<notin> field ` set (kept m current)"
proof -
  from assms kept_subset [of m current] have k: "f \<notin> field ` set (kept m current)"
    by blast
  show ?thesis
    using k by (simp add: toggle_absent [OF assms] toggle_last_desc toggle_last_asc)
qed

text \<open>
  The ring at the cap 1 from the chain \<open>[volume desc]\<close>: the third toggle of \<open>spread\<close>
  leaves nothing, and the chain is the default again.
\<close>

theorem toggle_ring_witness:
  "F_spread \<notin> field ` set [\<lparr>field = F_volume, order = desc\<rparr>] \<and>
   toggleSort \<lparr>field = F_volume, order = desc\<rparr> (Fin 1) F_spread [\<lparr>field = F_volume, order = desc\<rparr>]
     = [\<lparr>field = F_spread, order = desc\<rparr>] \<and>
   toggleSort \<lparr>field = F_volume, order = desc\<rparr> (Fin 1) F_spread
     (toggleSort \<lparr>field = F_volume, order = desc\<rparr> (Fin 1) F_spread [\<lparr>field = F_volume, order = desc\<rparr>])
     = [\<lparr>field = F_spread, order = asc\<rparr>] \<and>
   toggleSort \<lparr>field = F_volume, order = desc\<rparr> (Fin 1) F_spread
     (toggleSort \<lparr>field = F_volume, order = desc\<rparr> (Fin 1) F_spread
       (toggleSort \<lparr>field = F_volume, order = desc\<rparr> (Fin 1) F_spread [\<lparr>field = F_volume, order = desc\<rparr>]))
     = [\<lparr>field = F_volume, order = desc\<rparr>]"
proof -
  have absent: "F_spread \<notin> field ` set [\<lparr>field = F_volume, order = desc\<rparr>]"
    by simp
  have k: "kept (Fin 1) [\<lparr>field = F_volume, order = desc\<rparr>] = []"
    by (simp add: kept_def js_ge_def js_lt_def js_eq_def array_length_def)
  show ?thesis
    using absent toggle_ring [OF absent, of "\<lparr>field = F_volume, order = desc\<rparr>" "Fin 1", unfolded k, simplified]
    by blast
qed

lemma js_ge_length: "js_ge (array_length c) (Fin (of_int k)) \<longleftrightarrow> k \<le> int (length c)"
proof -
  have "(of_int k :: rat) \<le> of_int (int (length c)) \<longleftrightarrow> k \<le> int (length c)"
    by (rule of_int_le_iff)
  then show ?thesis
    by (auto simp: js_ge_def js_lt_def js_eq_def array_length_def)
qed

lemma toggle_length:
  assumes "1 \<le> k" "int (length c) \<le> k"
  shows "int (length (toggleSort d (Fin (of_int k)) f c)) \<le> k"
proof (cases "findIndex (\<lambda>config. field config = f) c")
  case None
  with assms show ?thesis by (cases c) (auto simp: toggleSort_def js_ge_length)
next
  case (Some i)
  then have "i < length c" by (rule findIndex_less)
  with Some assms show ?thesis
    by (auto simp: toggleSort_def Let_def length_remove_index)
qed

lemma toggleSorts_length:
  assumes "1 \<le> k" "int (length c) \<le> k"
  shows "int (length (toggleSorts d (Fin (of_int k)) fs c)) \<le> k"
  using assms(2) unfolding toggleSorts_def
  by (induction fs arbitrary: c) (simp_all add: toggle_length [OF assms(1)])

text \<open>
  C8 as stated fails: the cap is any number, and with the cap 1.5 the chain \<open>[volume desc]\<close>
  of length 1 is below the cap, so the toggle of \<open>spread\<close> appends an entry and the chain
  has 2 entries, more than the cap.
\<close>

theorem chain_never_exceeds_cap_counterexample:
  "js_ge (Fin (3 / 2)) (Fin 1) \<and>
   is_double (Fin (3 / 2)) \<and>
   toggleSorts \<lparr>field = F_volume, order = desc\<rparr> (Fin (3 / 2)) [F_spread]
       (initialSortConfigs \<lparr>field = F_volume, order = desc\<rparr>)
     = [\<lparr>field = F_volume, order = desc\<rparr>, \<lparr>field = F_spread, order = desc\<rparr>] \<and>
   js_lt (Fin (3 / 2))
     (array_length (toggleSorts \<lparr>field = F_volume, order = desc\<rparr> (Fin (3 / 2)) [F_spread]
        (initialSortConfigs \<lparr>field = F_volume, order = desc\<rparr>)))"
  by code_simp

text \<open>
  C8, amended. For an integer cap \<open>maxSorts \<ge> 1\<close>, after each call of a sequence of
  \<open>toggleSort\<close> calls that starts from the initial chain \<open>[defaultSort]\<close> the chain has at
  most \<open>maxSorts\<close> entries (\<open>take n fs\<close> are the first \<open>n\<close> calls); and at the cap, the
  toggle of a field that is not in the chain drops the oldest entry and appends the field
  with direction desc.
\<close>

theorem chain_never_exceeds_cap:
  assumes "1 \<le> k"
  shows "int (length (toggleSorts defaultSort (Fin (of_int k)) (take n fs)
        (initialSortConfigs defaultSort))) \<le> k \<and>
    (f \<notin> field ` set current \<and> k \<le> int (length current) \<longrightarrow>
       toggleSort defaultSort (Fin (of_int k)) f current
         = drop 1 current @ [\<lparr>field = f, order = desc\<rparr>])"
proof -
  have "int (length (initialSortConfigs defaultSort)) \<le> k"
    using assms by (simp add: initialSortConfigs_def)
  then have "int (length (toggleSorts defaultSort (Fin (of_int k)) (take n fs)
      (initialSortConfigs defaultSort))) \<le> k"
    by (rule toggleSorts_length [OF assms])
  moreover have "toggleSort defaultSort (Fin (of_int k)) f current
      = drop 1 current @ [\<lparr>field = f, order = desc\<rparr>]"
    if "f \<notin> field ` set current" "k \<le> int (length current)"
    using that by (simp add: toggle_absent kept_def js_ge_length)
  ultimately show ?thesis by blast
qed

text \<open>
  The scenario of the specification: with the cap 2, the toggles of \<open>spread\<close> and then
  \<open>price\<close> from \<open>[volume desc]\<close> give \<open>[spread desc, price desc]\<close>.
\<close>

theorem chain_never_exceeds_cap_witness:
  "(1::int) \<le> 2 \<and>
   int (length (toggleSorts \<lparr>field = F_volume, order = desc\<rparr> (Fin 2) (take 2 [F_spread, F_price])
     (initialSortConfigs \<lparr>field = F_volume, order = desc\<rparr>))) \<le> 2 \<and>
   F_price \<notin> field ` set [\<lparr>field = F_volume, order = desc\<rparr>, \<lparr>field = F_spread, order = desc\<rparr>] \<and>
   (2::int) \<le> int (length [\<lparr>field = F_volume, order = desc\<rparr>, \<lparr>field = F_spread, order = desc\<rparr>]) \<and>
   toggleSort \<lparr>field = F_volume, order = desc\<rparr> (Fin 2) F_price
       [\<lparr>field = F_volume, order = desc\<rparr>, \<lparr>field = F_spread, order = desc\<rparr>]
     = [\<lparr>field = F_spread, order = desc\<rparr>, \<lparr>field = F_price, order = desc\<rparr>] \<and>
   toggleSorts \<lparr>field = F_volume, order = desc\<rparr> (Fin 2) [F_spread, F_price]
       (initialSortConfigs \<lparr>field = F_volume, order = desc\<rparr>)
     = [\<lparr>field = F_spread, order = desc\<rparr>, \<lparr>field = F_price, order = desc\<rparr>]"
proof -
  have run: "toggleSorts \<lparr>field = F_volume, order = desc\<rparr> (Fin 2) [F_spread, F_price]
       (initialSortConfigs \<lparr>field = F_volume, order = desc\<rparr>)
     = [\<lparr>field = F_spread, order = desc\<rparr>, \<lparr>field = F_price, order = desc\<rparr>]"
    by code_simp
  have absent: "F_price \<notin> field ` set [\<lparr>field = F_volume, order = desc\<rparr>, \<lparr>field = F_spread, order = desc\<rparr>]"
    by simp
  from chain_never_exceeds_cap [of 2 "\<lparr>field = F_volume, order = desc\<rparr>" 2 "[F_spread, F_price]"
      F_price "[\<lparr>field = F_volume, order = desc\<rparr>, \<lparr>field = F_spread, order = desc\<rparr>]"]
  have "int (length (toggleSorts \<lparr>field = F_volume, order = desc\<rparr> (Fin 2) (take 2 [F_spread, F_price])
       (initialSortConfigs \<lparr>field = F_volume, order = desc\<rparr>))) \<le> 2"
    and "toggleSort \<lparr>field = F_volume, order = desc\<rparr> (Fin 2) F_price
       [\<lparr>field = F_volume, order = desc\<rparr>, \<lparr>field = F_spread, order = desc\<rparr>]
     = [\<lparr>field = F_spread, order = desc\<rparr>, \<lparr>field = F_price, order = desc\<rparr>]"
    using absent by simp_all
  with run absent show ?thesis by simp
qed

section \<open>Sorting\<close>

lemma mset_sort_insert: "mset (sort_insert cf x ys) = add_mset x (mset ys)"
  by (induction ys) auto

lemma mset_array_sort: "mset (array_sort cf xs) = mset xs"
  unfolding array_sort_def by (induction xs) (auto simp: mset_sort_insert)

lemma set_sort_insert: "set (sort_insert cf x ys) = insert x (set ys)"
  by (induction ys) auto

lemma set_array_sort: "set (array_sort cf xs) = set xs"
  by (metis mset_array_sort set_mset_mset)

lemma length_array_sort: "length (array_sort cf xs) = length xs"
  by (metis mset_array_sort size_mset)

lemma sort_insert_all_before:
  assumes pass: "\<And>y. Q x \<Longrightarrow> P y \<Longrightarrow> js_lt (Fin 0) (sort_compare cf x y)"
    and stop: "\<And>y. P x \<Longrightarrow> Q y \<Longrightarrow> \<not> js_lt (Fin 0) (sort_compare cf x y)"
    and total: "\<And>y. P y \<or> Q y"
    and sorted: "all_before P Q ys"
  shows "all_before P Q (sort_insert cf x ys)"
  using sorted
proof (induction ys)
  case Nil
  then show ?case by (simp add: all_before_def)
next
  case (Cons y ys)
  then have tail: "all_before P Q ys" and head: "\<forall>z \<in> set ys. \<not> (Q y \<and> P z)"
    by (simp_all add: all_before_def)
  show ?case
  proof (cases "js_lt (Fin 0) (sort_compare cf x y)")
    case True
    then have "\<not> (Q y \<and> P x)" using stop by blast
    with True head Cons.IH [OF tail] show ?thesis
      by (simp add: all_before_def set_sort_insert)
  next
    case False
    have "\<not> (Q x \<and> P z)" if "z \<in> set (y # ys)" for z
    proof
      assume qz: "Q x \<and> P z"
      with False pass have "\<not> P y" by blast
      with total have "Q y" by blast
      with head qz that \<open>\<not> P y\<close> show False by auto
    qed
    with False Cons.prems show ?thesis
      by (simp add: all_before_def)
  qed
qed

lemma array_sort_all_before:
  assumes pass: "\<And>x y. Q x \<Longrightarrow> P y \<Longrightarrow> js_lt (Fin 0) (sort_compare cf x y)"
    and stop: "\<And>x y. P x \<Longrightarrow> Q y \<Longrightarrow> \<not> js_lt (Fin 0) (sort_compare cf x y)"
    and total: "\<And>y. P y \<or> Q y"
  shows "all_before P Q (array_sort cf xs)"
  unfolding array_sort_def
proof (induction xs)
  case Nil
  show ?case by (simp add: all_before_def)
next
  case (Cons x xs)
  then show ?case
    by (simp add: sort_insert_all_before [where P = P and Q = Q] pass stop total)
qed

lemma sort_insert_sorted_key:
  fixes key :: "'a \<Rightarrow> int"
  assumes gt: "\<And>y. js_lt (Fin 0) (sort_compare cf x y) \<longleftrightarrow> key y < key x"
    and sorted: "sorted_wrt (\<lambda>a b. key a \<le> key b) ys"
  shows "sorted_wrt (\<lambda>a b. key a \<le> key b) (sort_insert cf x ys)"
  using sorted
proof (induction ys)
  case Nil
  then show ?case by simp
next
  case (Cons y ys)
  show ?case
  proof (cases "key y < key x")
    case True
    with Cons gt show ?thesis
      by (auto simp: set_sort_insert)
  next
    case False
    with Cons.prems gt show ?thesis
      by auto
  qed
qed

lemma array_sort_sorted_key:
  fixes key :: "'a \<Rightarrow> int"
  assumes gt: "\<And>x y. js_lt (Fin 0) (sort_compare cf x y) \<longleftrightarrow> key y < key x"
  shows "sorted_wrt (\<lambda>a b. key a \<le> key b) (array_sort cf xs)"
  unfolding array_sort_def
  by (induction xs) (simp_all add: sort_insert_sorted_key gt)

lemma all_before_key:
  fixes key :: "'a \<Rightarrow> int"
  assumes "sorted_wrt (\<lambda>a b. key a \<le> key b) ms"
    and "\<And>a b. P a \<Longrightarrow> Q b \<Longrightarrow> key a < key b"
  shows "all_before P Q ms"
  unfolding all_before_def
  by (rule sorted_wrt_mono_rel [OF _ assms(1)]) (use assms(2) in fastforce)

lemma small_differences:
  "js_sub (Fin 0) (Fin 0) = Fin 0" "js_sub (Fin 0) (Fin 1) = Fin (- 1)" "js_sub (Fin 0) (Fin 2) = Fin (- 2)"
  "js_sub (Fin 1) (Fin 0) = Fin 1" "js_sub (Fin 1) (Fin 1) = Fin 0" "js_sub (Fin 1) (Fin 2) = Fin (- 1)"
  "js_sub (Fin 2) (Fin 0) = Fin 2" "js_sub (Fin 2) (Fin 1) = Fin 1" "js_sub (Fin 2) (Fin 2) = Fin 0"
  by code_simp+

lemma compareByRAGStatus_rank:
  "compareByRAGStatus a b = Fin (of_int (rag_rank (ragStatus a) - rag_rank (ragStatus b)))"
  by (cases "ragStatus a"; cases "ragStatus b") (simp_all add: compareByRAGStatus_def small_differences)

lemma rag_rank_bounds: "0 \<le> rag_rank s" "rag_rank s \<le> 2"
  by (cases s; simp)+

lemma rating_chain_gt:
  "js_lt (Fin 0) (sort_compare (chain_compare lc [\<lparr>field = F_ragStatus, order = asc\<rparr>]) a b)
     \<longleftrightarrow> rag_rank (ragStatus b) < rag_rank (ragStatus a)"
  "js_lt (Fin 0) (sort_compare (chain_compare lc [\<lparr>field = F_ragStatus, order = desc\<rparr>]) a b)
     \<longleftrightarrow> - rag_rank (ragStatus b) < - rag_rank (ragStatus a)"
  by (auto simp: sort_compare_def compareByRAGStatus_rank js_eq_def js_lt_def js_neg_def isNaN_def Let_def)

text \<open>
  C5 as stated fails: under the chain \<open>[ragStatus desc]\<close> an amber record is placed
  before a green one.
\<close>

theorem rating_desc_counterexample:
  "\<not> all_before (has_rating green) (has_rating amber)
       (sortMarkets equalCollation [\<lparr>field = F_ragStatus, order = desc\<rparr>]
          [createMockMarket, createMockMarket\<lparr>ragStatus := amber\<rparr>])"
  by code_simp

text \<open>
  C5, amended. The comparator of the sort engine ranks green lowest (green < amber < red).
  Under the chain \<open>[ragStatus desc]\<close> every red record stands before every amber record and
  every amber record before every green one; under \<open>[ragStatus asc]\<close> every green record
  stands before every amber record and every amber record before every red one. Both results
  are rearrangements of the input.
\<close>

theorem rating_sort_order:
  "all_before (has_rating red) (has_rating amber) (sortMarkets lc [\<lparr>field = F_ragStatus, order = desc\<rparr>] ms) \<and>
   all_before (has_rating amber) (has_rating green) (sortMarkets lc [\<lparr>field = F_ragStatus, order = desc\<rparr>] ms) \<and>
   all_before (has_rating red) (has_rating green) (sortMarkets lc [\<lparr>field = F_ragStatus, order = desc\<rparr>] ms) \<and>
   all_before (has_rating green) (has_rating amber) (sortMarkets lc [\<lparr>field = F_ragStatus, order = asc\<rparr>] ms) \<and>
   all_before (has_rating amber) (has_rating red) (sortMarkets lc [\<lparr>field = F_ragStatus, order = asc\<rparr>] ms) \<and>
   all_before (has_rating green) (has_rating red) (sortMarkets lc [\<lparr>field = F_ragStatus, order = asc\<rparr>] ms) \<and>
   mset (sortMarkets lc [\<lparr>field = F_ragStatus, order = desc\<rparr>] ms) = mset ms \<and>
   mset (sortMarkets lc [\<lparr>field = F_ragStatus, order = asc\<rparr>] ms) = mset ms"
proof -
  have up: "sorted_wrt (\<lambda>a b. rag_rank (ragStatus a) \<le> rag_rank (ragStatus b))
      (sortMarkets lc [\<lparr>field = F_ragStatus, order = asc\<rparr>] ms)"
    unfolding sortMarkets_def by (rule array_sort_sorted_key) (rule rating_chain_gt(1))
  have down: "sorted_wrt (\<lambda>a b. - rag_rank (ragStatus a) \<le> - rag_rank (ragStatus b))
      (sortMarkets lc [\<lparr>field = F_ragStatus, order = desc\<rparr>] ms)"
    unfolding sortMarkets_def by (rule array_sort_sorted_key) (rule rating_chain_gt(2))
  show ?thesis
    by (intro conjI all_before_key [OF down] all_before_key [OF up])
      (simp_all add: has_rating_def sortMarkets_def mset_array_sort)
qed

text \<open>
  C1 at a failing input: under the chain \<open>[spread desc]\<close> the record with the null spread
  is placed first, before the record with the spread 1.
\<close>

theorem spread_desc_nulls_first:
  "sortMarkets lc [\<lparr>field = F_spread, order = desc\<rparr>]
     [createMockMarket, createMockMarket\<lparr>spread := None\<rparr>]
   = [createMockMarket\<lparr>spread := None\<rparr>, createMockMarket]"
  by (simp add: sortMarkets_def array_sort_def sort_compare_def compareBySpread_def createMockMarket_def
      js_eq_def js_neg_def js_lt_def isNaN_def)

lemma spread_chain_asc:
  "null_spread x \<Longrightarrow> some_spread y \<Longrightarrow>
     js_lt (Fin 0) (sort_compare (chain_compare lc [\<lparr>field = F_spread, order = asc\<rparr>]) x y)"
  "some_spread x \<Longrightarrow> null_spread y \<Longrightarrow>
     \<not> js_lt (Fin 0) (sort_compare (chain_compare lc [\<lparr>field = F_spread, order = asc\<rparr>]) x y)"
  by (auto simp: null_spread_def some_spread_def sort_compare_def compareBySpread_def
      js_eq_def js_lt_def isNaN_def)

lemma spread_chain_desc:
  "some_spread x \<Longrightarrow> null_spread y \<Longrightarrow>
     js_lt (Fin 0) (sort_compare (chain_compare lc [\<lparr>field = F_spread, order = desc\<rparr>]) x y)"
  "null_spread x \<Longrightarrow> some_spread y \<Longrightarrow>
     \<not> js_lt (Fin 0) (sort_compare (chain_compare lc [\<lparr>field = F_spread, order = desc\<rparr>]) x y)"
  by (auto simp: null_spread_def some_spread_def sort_compare_def compareBySpread_def
      js_eq_def js_lt_def js_neg_def isNaN_def)

text \<open>
  In general the null spreads are last under \<open>[spread asc]\<close> and first under
  \<open>[spread desc]\<close>.
\<close>

lemma spread_nulls_by_direction:
  "all_before some_spread null_spread (sortMarkets lc [\<lparr>field = F_spread, order = asc\<rparr>] ms)"
  "all_before null_spread some_spread (sortMarkets lc [\<lparr>field = F_spread, order = desc\<rparr>] ms)"
proof -
  have total: "some_spread y \<or> null_spread y" "null_spread y \<or> some_spread y" for y
    by (auto simp: null_spread_def some_spread_def)
  show "all_before some_spread null_spread (sortMarkets lc [\<lparr>field = F_spread, order = asc\<rparr>] ms)"
    unfolding sortMarkets_def
    by (rule array_sort_all_before) (simp_all add: spread_chain_asc total)
  show "all_before null_spread some_spread (sortMarkets lc [\<lparr>field = F_spread, order = desc\<rparr>] ms)"
    unfolding sortMarkets_def
    by (rule array_sort_all_before) (simp_all add: spread_chain_desc total)
qed

section \<open>Market data assembly\<close>

lemma summaryMap_None: "summaryMap summaries k = None \<longleftrightarrow> k \<notin> MarketSummary.ticker_id ` set summaries"
  by (simp add: summaryMap_def map_of_eq_None_iff image_image)

lemma summaryMap_Some:
  "summaryMap summaries k = Some s \<Longrightarrow> s \<in> set summaries \<and> MarketSummary.ticker_id s = k"
  by (auto simp: summaryMap_def dest!: map_of_SomeD)

lemma processMarket_tickerId: "MarketData.tickerId (processMarket smap p) = MarketPair.ticker_id p"
  by (simp add: processMarket_def Let_def)

lemma processMarket_missing:
  assumes "smap (MarketPair.ticker_id p) = None"
  shows "highestBid (processMarket smap p) = None \<and> lowestAsk (processMarket smap p) = None \<and>
    spread (processMarket smap p) = None \<and> lastPrice (processMarket smap p) = Fin 0 \<and>
    volume24h (processMarket smap p) = Fin 0 \<and> ragStatus (processMarket smap p) = red"
  using assms by (simp add: processMarket_def Let_def calculateSpread_def classifyRAG_def)

lemma processMarket_joined:
  assumes "smap (MarketPair.ticker_id p) = Some s"
  shows "highestBid (processMarket smap p) = bid s \<and> lowestAsk (processMarket smap p) = ask s \<and>
    lastPrice (processMarket smap p) = MarketSummary.last_price s \<and> volume24h (processMarket smap p) = MarketSummary.base_volume s"
  using assms by (simp add: processMarket_def Let_def)

lemma set_fetchMarkets:
  "set (fetchMarkets pairs summaries) = processMarket (summaryMap summaries) ` set pairs"
  by (simp add: fetchMarkets_def Let_def set_array_sort)

text \<open>
  C2. The assembler returns one record per pair: as many records as pairs, with the
  \<open>ticker_id\<close>s of the pairs as their \<open>tickerId\<close>s. A record whose \<open>tickerId\<close> is the
  \<open>ticker_id\<close> of no summary has null bid, ask and spread, last price 0, volume 0 and the
  rating red; a record whose \<open>tickerId\<close> is that of a summary has the bid, ask, last price
  and base volume of a summary with that \<open>ticker_id\<close>, wherever it stands in the list.
\<close>

theorem one_record_per_pair:
  "length (fetchMarkets pairs summaries) = length pairs \<and>
   mset (map MarketData.tickerId (fetchMarkets pairs summaries)) = mset (map MarketPair.ticker_id pairs) \<and>
   (\<forall>r \<in> set (fetchMarkets pairs summaries).
      MarketData.tickerId r \<notin> MarketSummary.ticker_id ` set summaries \<longrightarrow>
        highestBid r = None \<and> lowestAsk r = None \<and> spread r = None \<and>
        lastPrice r = Fin 0 \<and> volume24h r = Fin 0 \<and> ragStatus r = red) \<and>
   (\<forall>r \<in> set (fetchMarkets pairs summaries).
      MarketData.tickerId r \<in> MarketSummary.ticker_id ` set summaries \<longrightarrow>
        (\<exists>s \<in> set summaries. MarketSummary.ticker_id s = MarketData.tickerId r \<and>
           highestBid r = bid s \<and> lowestAsk r = ask s \<and>
           lastPrice r = MarketSummary.last_price s \<and> volume24h r = MarketSummary.base_volume s))"
proof -
  have len: "length (fetchMarkets pairs summaries) = length pairs"
    by (simp add: fetchMarkets_def Let_def length_array_sort)
  have "mset (fetchMarkets pairs summaries) = mset (map (processMarket (summaryMap summaries)) pairs)"
    by (simp add: fetchMarkets_def Let_def mset_array_sort)
  then have "mset (map MarketData.tickerId (fetchMarkets pairs summaries))
      = mset (map MarketData.tickerId (map (processMarket (summaryMap summaries)) pairs))"
    by (metis mset_map)
  then have ids: "mset (map MarketData.tickerId (fetchMarkets pairs summaries))
      = mset (map MarketPair.ticker_id pairs)"
    by (simp add: processMarket_tickerId comp_def)
  have missing: "highestBid r = None \<and> lowestAsk r = None \<and> spread r = None \<and>
        lastPrice r = Fin 0 \<and> volume24h r = Fin 0 \<and> ragStatus r = red"
    if r: "r \<in> set (fetchMarkets pairs summaries)"
      and no: "MarketData.tickerId r \<notin> MarketSummary.ticker_id ` set summaries" for r
  proof -
    from r obtain p where p: "r = processMarket (summaryMap summaries) p"
      by (auto simp: set_fetchMarkets)
    with no have "summaryMap summaries (MarketPair.ticker_id p) = None"
      by (simp add: summaryMap_None processMarket_tickerId)
    from processMarket_missing [of "summaryMap summaries" p, OF this] p
    show ?thesis by simp
  qed
  have joined: "\<exists>s \<in> set summaries. MarketSummary.ticker_id s = MarketData.tickerId r \<and>
           highestBid r = bid s \<and> lowestAsk r = ask s \<and>
           lastPrice r = MarketSummary.last_price s \<and> volume24h r = MarketSummary.base_volume s"
    if r: "r \<in> set (fetchMarkets pairs summaries)"
      and present: "MarketData.tickerId r \<in> MarketSummary.ticker_id ` set summaries" for r
  proof -
    from r obtain p where p: "r = processMarket (summaryMap summaries) p"
      by (auto simp: set_fetchMarkets)
    with present obtain s where s: "summaryMap summaries (MarketPair.ticker_id p) = Some s"
      using summaryMap_None [of summaries "MarketPair.ticker_id p"]
      by (auto simp: processMarket_tickerId)
    from summaryMap_Some [OF s] processMarket_joined [of "summaryMap summaries" p, OF s] p
    show ?thesis
      by (auto simp: processMarket_tickerId)
  qed
  from len ids missing joined show ?thesis by blast
qed

text \<open>
  The two pairs of the tests with a summary for the second pair only: the record of the
  first pair, the one without a summary, comes second after the volume sort.
\<close>

theorem one_record_per_pair_witness:
  "length (fetchMarkets mockPairs [ethSummary]) = length mockPairs \<and>
   map MarketData.tickerId (fetchMarkets mockPairs [ethSummary]) = [''ETH_USDT'', ''BTC_USDT''] \<and>
   fetchMarkets mockPairs [ethSummary] ! 1 \<in> set (fetchMarkets mockPairs [ethSummary]) \<and>
   MarketData.tickerId (fetchMarkets mockPairs [ethSummary] ! 1)
     \<notin> MarketSummary.ticker_id ` set [ethSummary] \<and>
   highestBid (fetchMarkets mockPairs [ethSummary] ! 1) = None \<and>
   lowestAsk (fetchMarkets mockPairs [ethSummary] ! 1) = None \<and>
   spread (fetchMarkets mockPairs [ethSummary] ! 1) = None \<and>
   lastPrice (fetchMarkets mockPairs [ethSummary] ! 1) = Fin 0 \<and>
   volume24h (fetchMarkets mockPairs [ethSummary] ! 1) = Fin 0 \<and>
   ragStatus (fetchMarkets mockPairs [ethSummary] ! 1) = red \<and>
   fetchMarkets mockPairs [ethSummary] ! 0 \<in> set (fetchMarkets mockPairs [ethSummary]) \<and>
   MarketData.tickerId (fetchMarkets mockPairs [ethSummary] ! 0)
     \<in> MarketSummary.ticker_id ` set [ethSummary] \<and>
   highestBid (fetchMarkets mockPairs [ethSummary] ! 0) = bid ethSummary \<and>
   lowestAsk (fetchMarkets mockPairs [ethSummary] ! 0) = ask ethSummary \<and>
   lastPrice (fetchMarkets mockPairs [ethSummary] ! 0) = MarketSummary.last_price ethSummary \<and>
   volume24h (fetchMarkets mockPairs [ethSummary] ! 0) = MarketSummary.base_volume ethSummary"
proof -
  have eval: "fetchMarkets mockPairs [ethSummary] =
     [processMarket (summaryMap [ethSummary]) (mockPairs ! 1),
      processMarket (summaryMap [ethSummary]) (mockPairs ! 0)]"
    by code_simp
  have fields: "map MarketData.tickerId (fetchMarkets mockPairs [ethSummary]) = [''ETH_USDT'', ''BTC_USDT'']"
    by code_simp
  have ids: "MarketData.tickerId (fetchMarkets mockPairs [ethSummary] ! 1) = ''BTC_USDT''"
    "MarketData.tickerId (fetchMarkets mockPairs [ethSummary] ! 0) = ''ETH_USDT''"
    "MarketSummary.ticker_id ethSummary = ''ETH_USDT''"
    unfolding eval by (simp_all add: processMarket_tickerId mockPairs_def ethSummary_def)
  have mem: "fetchMarkets mockPairs [ethSummary] ! 1 \<in> set (fetchMarkets mockPairs [ethSummary])"
    "fetchMarkets mockPairs [ethSummary] ! 0 \<in> set (fetchMarkets mockPairs [ethSummary])"
    by (simp_all add: eval)
  from one_record_per_pair [of mockPairs "[ethSummary]"]
  have len: "length (fetchMarkets mockPairs [ethSummary]) = length mockPairs"
    and missing: "highestBid (fetchMarkets mockPairs [ethSummary] ! 1) = None \<and>
      lowestAsk (fetchMarkets mockPairs [ethSummary] ! 1) = None \<and>
      spread (fetchMarkets mockPairs [ethSummary] ! 1) = None \<and>
      lastPrice (fetchMarkets mockPairs [ethSummary] ! 1) = Fin 0 \<and>
      volume24h (fetchMarkets mockPairs [ethSummary] ! 1) = Fin 0 \<and>
      ragStatus (fetchMarkets mockPairs [ethSummary] ! 1) = red"
    and joined: "\<exists>s \<in> set [ethSummary].
      MarketSummary.ticker_id s = MarketData.tickerId (fetchMarkets mockPairs [ethSummary] ! 0) \<and>
      highestBid (fetchMarkets mockPairs [ethSummary] ! 0) = bid s \<and>
      lowestAsk (fetchMarkets mockPairs [ethSummary] ! 0) = ask s \<and>
      lastPrice (fetchMarkets mockPairs [ethSummary] ! 0) = MarketSummary.last_price s \<and>
      volume24h (fetchMarkets mockPairs [ethSummary] ! 0) = MarketSummary.base_volume s"
    using mem ids by auto
  from len fields mem ids missing joined show ?thesis
    by simp
qed

section \<open>Depth analysis\<close>

lemma js_le_refl: "a \<noteq> NaN \<Longrightarrow> js_le a a"
  by (cases a) (auto simp: js_le_def js_eq_def)

lemma js_le_trans: "js_le a b \<Longrightarrow> js_le b c \<Longrightarrow> js_le a c"
  by (cases a; cases b; cases c) (auto simp: js_le_def js_lt_def js_eq_def split: if_splits)

lemma min2_props:
  assumes "a \<noteq> NaN" "b \<noteq> NaN"
  shows "min2 a b \<noteq> NaN" "min2 a b = a \<or> min2 a b = b" "js_le (min2 a b) a" "js_le (min2 a b) b"
  using assms by (cases a; cases b; auto simp: min2_def js_le_def js_lt_def js_eq_def)+

lemma max2_props:
  assumes "a \<noteq> NaN" "b \<noteq> NaN"
  shows "max2 a b \<noteq> NaN" "max2 a b = a \<or> max2 a b = b" "js_le a (max2 a b)" "js_le b (max2 a b)"
  using assms by (cases a; cases b; auto simp: max2_def js_le_def js_lt_def js_eq_def)+

lemma foldl_min2:
  assumes "acc \<noteq> NaN" "NaN \<notin> set xs"
  shows "foldl min2 acc xs \<in> insert acc (set xs) \<and> js_le (foldl min2 acc xs) acc \<and>
    (\<forall>x \<in> set xs. js_le (foldl min2 acc xs) x)"
  using assms
proof (induction xs arbitrary: acc)
  case Nil
  then show ?case by (simp add: js_le_refl)
next
  case (Cons x xs)
  then have x: "x \<noteq> NaN" and xs: "NaN \<notin> set xs" by auto
  note m = min2_props [OF Cons.prems(1) x]
  from Cons.IH [OF m(1) xs] m(2,3,4) show ?case
    by (auto intro: js_le_trans)
qed

lemma foldl_max2:
  assumes "acc \<noteq> NaN" "NaN \<notin> set xs"
  shows "foldl max2 acc xs \<in> insert acc (set xs) \<and> js_le acc (foldl max2 acc xs) \<and>
    (\<forall>x \<in> set xs. js_le x (foldl max2 acc xs))"
  using assms
proof (induction xs arbitrary: acc)
  case Nil
  then show ?case by (simp add: js_le_refl)
next
  case (Cons x xs)
  then have x: "x \<noteq> NaN" and xs: "NaN \<notin> set xs" by auto
  note m = max2_props [OF Cons.prems(1) x]
  from Cons.IH [OF m(1) xs] m(2,3,4) show ?case
    by (auto intro: js_le_trans)
qed

lemma Math_min_is_min:
  assumes "xs \<noteq> []" "NaN \<notin> set xs"
  shows "is_min_of (Math_min xs) xs"
proof -
  from assms obtain x ys where xs: "xs = x # ys" by (cases xs) auto
  with assms have x: "x \<noteq> NaN" and ys: "NaN \<notin> set ys" by auto
  have first: "min2 PosInf x = x"
    using x by (cases x) (auto simp: min2_def js_lt_def)
  from foldl_min2 [OF x ys] show ?thesis
    by (auto simp: is_min_of_def Math_min_def xs first list_all_iff)
qed

lemma Math_max_is_max:
  assumes "xs \<noteq> []" "NaN \<notin> set xs"
  shows "is_max_of (Math_max xs) xs"
proof -
  from assms obtain x ys where xs: "xs = x # ys" by (cases xs) auto
  with assms have x: "x \<noteq> NaN" and ys: "NaN \<notin> set ys" by auto
  have first: "max2 NegInf x = x"
    using x by (cases x) (auto simp: max2_def js_lt_def)
  from foldl_max2 [OF x ys] show ?thesis
    by (auto simp: is_max_of_def Math_max_def xs first list_all_iff)
qed

lemma total_quantity: "foldl (\<lambda>sum e. js_add sum (quantity e)) acc es = foldl js_add acc (map quantity es)"
  by (induction es arbitrary: acc) auto

text \<open>
  C9. For a depth snapshot whose prices are numbers (none is NaN), the analysis has the sums
  of the bid and of the ask quantities, the number of entries of each side, for each side
  the range from the least to the greatest price, null when the side is empty, and the
  spread \<open>((bestAsk - bestBid) / midpoint) * 100\<close> between the greatest bid price and the
  least ask price, null when either side is empty.
\<close>

theorem depth_analysis:
  assumes "no_NaN_price (bids d)" "no_NaN_price (asks d)"
  shows "totalBidQuantity (analyzeOrderBook d) = js_sum (map quantity (bids d)) \<and>
    totalAskQuantity (analyzeOrderBook d) = js_sum (map quantity (asks d)) \<and>
    bidDepth (analyzeOrderBook d) = length (bids d) \<and>
    askDepth (analyzeOrderBook d) = length (asks d) \<and>
    (bids d = [] \<longrightarrow> bidPriceRange (analyzeOrderBook d) = None) \<and>
    (asks d = [] \<longrightarrow> askPriceRange (analyzeOrderBook d) = None) \<and>
    (bids d \<noteq> [] \<longrightarrow> (\<exists>r. bidPriceRange (analyzeOrderBook d) = Some r \<and>
       is_min_of (range_min r) (map price (bids d)) \<and> is_max_of (range_max r) (map price (bids d)))) \<and>
    (asks d \<noteq> [] \<longrightarrow> (\<exists>r. askPriceRange (analyzeOrderBook d) = Some r \<and>
       is_min_of (range_min r) (map price (asks d)) \<and> is_max_of (range_max r) (map price (asks d)))) \<and>
    (bids d = [] \<or> asks d = [] \<longrightarrow> spreadAtDepth (analyzeOrderBook d) = None) \<and>
    (bids d \<noteq> [] \<and> asks d \<noteq> [] \<longrightarrow> (\<exists>bestBid bestAsk.
       is_max_of bestBid (map price (bids d)) \<and> is_min_of bestAsk (map price (asks d)) \<and>
       spreadAtDepth (analyzeOrderBook d) = Some (spread_percent bestBid bestAsk)))"
proof -
  have nb: "NaN \<notin> set (map price (bids d))" and na: "NaN \<notin> set (map price (asks d))"
    using assms by (auto simp: no_NaN_price_def list_all_iff)
  have bmin: "is_min_of (Math_min (map price (bids d))) (map price (bids d))"
    and bmax: "is_max_of (Math_max (map price (bids d))) (map price (bids d))" if "bids d \<noteq> []"
    using that nb by (simp_all add: Math_min_is_min Math_max_is_max)
  have amin: "is_min_of (Math_min (map price (asks d))) (map price (asks d))"
    and amax: "is_max_of (Math_max (map price (asks d))) (map price (asks d))" if "asks d \<noteq> []"
    using that na by (simp_all add: Math_min_is_min Math_max_is_max)
  have totals: "totalBidQuantity (analyzeOrderBook d) = js_sum (map quantity (bids d))"
    "totalAskQuantity (analyzeOrderBook d) = js_sum (map quantity (asks d))"
    by (simp_all add: analyzeOrderBook_def Let_def js_sum_def total_quantity)
  have counts: "bidDepth (analyzeOrderBook d) = length (bids d)"
    "askDepth (analyzeOrderBook d) = length (asks d)"
    by (simp_all add: analyzeOrderBook_def Let_def)
  have branges: "bidPriceRange (analyzeOrderBook d) =
      (if bids d = [] then None
       else Some \<lparr>range_min = Math_min (map price (bids d)), range_max = Math_max (map price (bids d))\<rparr>)"
    by (simp add: analyzeOrderBook_def Let_def)
  have aranges: "askPriceRange (analyzeOrderBook d) =
      (if asks d = [] then None
       else Some \<lparr>range_min = Math_min (map price (asks d)), range_max = Math_max (map price (asks d))\<rparr>)"
    by (simp add: analyzeOrderBook_def Let_def)
  have sp: "spreadAtDepth (analyzeOrderBook d) =
      (if bids d = [] \<or> asks d = [] then None
       else Some (spread_percent (Math_max (map price (bids d))) (Math_min (map price (asks d)))))"
    by (simp add: analyzeOrderBook_def Let_def spread_percent_def)
  show ?thesis
    using totals counts branges aranges sp bmin bmax amin amax by auto
qed

text \<open>The scenario of the specification.\<close>

theorem depth_analysis_witness:
  "no_NaN_price (bids depthScenario) \<and> no_NaN_price (asks depthScenario) \<and>
   bids depthScenario \<noteq> [] \<and> asks depthScenario \<noteq> [] \<and>
   totalBidQuantity (analyzeOrderBook depthScenario) = Fin (5 / 2) \<and>
   totalAskQuantity (analyzeOrderBook depthScenario) = Fin 2 \<and>
   bidDepth (analyzeOrderBook depthScenario) = 3 \<and>
   askDepth (analyzeOrderBook depthScenario) = 3 \<and>
   bidPriceRange (analyzeOrderBook depthScenario) = Some \<lparr>range_min = Fin 16580, range_max = Fin 16600\<rparr> \<and>
   askPriceRange (analyzeOrderBook depthScenario) = Some \<lparr>range_min = Fin 16610, range_max = Fin 16630\<rparr> \<and>
   is_max_of (Fin 16600) (map price (bids depthScenario)) \<and>
   is_min_of (Fin 16610) (map price (asks depthScenario)) \<and>
   spreadAtDepth (analyzeOrderBook depthScenario) = Some (spread_percent (Fin 16600) (Fin 16610)) \<and>
   spread_percent (Fin 16600) (Fin 16610) = Fin (1084877959017283 / 18014398509481984)"
proof -
  have prices: "no_NaN_price (bids depthScenario)" "no_NaN_price (asks depthScenario)"
    by code_simp+
  have sides: "bids depthScenario \<noteq> []" "asks depthScenario \<noteq> []"
    by code_simp+
  have analysis: "analyzeOrderBook depthScenario =
     \<lparr>MarketDepthAnalysis.tickerId = ''BTC_USDT'', totalBidQuantity = Fin (5 / 2),
      totalAskQuantity = Fin 2,
      bidPriceRange = Some \<lparr>range_min = Fin 16580, range_max = Fin 16600\<rparr>,
      askPriceRange = Some \<lparr>range_min = Fin 16610, range_max = Fin 16630\<rparr>,
      bidDepth = 3, askDepth = 3,
      spreadAtDepth = Some (Fin (1084877959017283 / 18014398509481984)),
      timestamp = Fin 1700000000000\<rparr>"
    by code_simp
  have best: "is_max_of (Fin 16600) (map price (bids depthScenario))"
    "is_min_of (Fin 16610) (map price (asks depthScenario))"
    by code_simp+
  have percent: "spread_percent (Fin 16600) (Fin 16610) = Fin (1084877959017283 / 18014398509481984)"
    by code_simp
  show ?thesis
    using depth_analysis [OF prices] prices sides best percent
    by (simp add: analysis)
qed

section \<open>Validation of the summary payload\<close>

lemma isl_ap: "isl (ap rf rx) \<longleftrightarrow> isl rf \<or> isl rx"
  by (cases rf; cases rx) (simp_all add: ap_def)

lemma isl_parse_all: "isl (parse_all schema vs) \<longleftrightarrow> (\<exists>v \<in> set vs. isl (schema v))"
  by (induction vs) (auto simp: isl_ap)

lemma js_lt_not_NaN: "js_lt a b \<Longrightarrow> a \<noteq> NaN"
  by (auto simp: js_lt_def)

lemma optionalNumber_negative:
  assumes "coerces_negative Number v"
  shows "isl (optionalNumber Number v)"
  using assms js_lt_not_NaN [of "Number v" "Fin 0"]
  by (auto simp: coerces_negative_def optionalNumber_def Let_def z_nullable_def z_number_def
      nonnegative_def isNaN_def)

lemma optionalNumber_null:
  "optionalNumber Number v = Inr None \<longleftrightarrow>
     v = JUndefined \<or> v = JNull \<or> v = JStr '''' \<or> Number v = NaN"
  by (auto simp: optionalNumber_def Let_def z_nullable_def z_number_def nonnegative_def isNaN_def
      map_sum_def split: sum.splits)

lemma item_fails:
  assumes "coerces_negative Number (get_prop ''highest_bid'' (JObj props)) \<or>
    coerces_negative Number (get_prop ''lowest_ask'' (JObj props))"
  shows "isl (RawMarketSummaryItemSchema Number (JObj props))"
  using assms optionalNumber_negative [of Number]
  by (auto simp: RawMarketSummaryItemSchema_def isl_ap)

lemma response_fails:
  assumes "get_prop ''summary'' (JObj props) = JArr items" "item \<in> set items"
    "isl (RawMarketSummaryItemSchema Number item)"
  shows "isl (RawMarketSummaryResponseSchema Number (JObj props))"
  using assms by (auto simp: RawMarketSummaryResponseSchema_def isl_ap z_array_def isl_parse_all)

text \<open>
  C10. When the \<open>highest_bid\<close> or the \<open>lowest_ask\<close> of an item of the payload coerces to
  a negative number, the throwing validation raises its error and the safe validation
  returns null, for the whole payload. \<open>optionalNumber\<close> turns into null exactly the
  values that are \<open>undefined\<close>, \<open>null\<close>, the empty string or coerce to NaN; a value that
  coerces to a negative number is an issue.
\<close>

theorem negative_bid_or_ask_fails_validation:
  assumes "get_prop ''summary'' (JObj props) = JArr items"
    and "JObj item_props \<in> set items"
    and "coerces_negative Number (get_prop ''highest_bid'' (JObj item_props)) \<or>
      coerces_negative Number (get_prop ''lowest_ask'' (JObj item_props))"
  shows "(\<exists>issues. validateMarketSummary Number (JObj props) = Inl (ValidationError issues)) \<and>
    safeValidateMarketSummary Number (JObj props) = None \<and>
    (optionalNumber Number v = Inr None \<longleftrightarrow>
       v = JUndefined \<or> v = JNull \<or> v = JStr '''' \<or> Number v = NaN) \<and>
    (coerces_negative Number v \<longrightarrow> (\<exists>issues. optionalNumber Number v = Inl issues))"
proof -
  from item_fails [OF assms(3)] have "isl (RawMarketSummaryItemSchema Number (JObj item_props))" .
  from response_fails [OF assms(1,2) this]
  obtain issues where "RawMarketSummaryResponseSchema Number (JObj props) = Inl issues"
    by (auto simp: isl_def)
  then have "validateMarketSummary Number (JObj props) = Inl (ValidationError issues)"
    "safeValidateMarketSummary Number (JObj props) = None"
    by (simp_all add: validateMarketSummary_def safeValidateMarketSummary_def)
  moreover have "\<exists>issues. optionalNumber Number v = Inl issues" if "coerces_negative Number v"
    using optionalNumber_negative [OF that] by (auto simp: isl_def)
  ultimately show ?thesis
    using optionalNumber_null [of Number v] by blast
qed

text \<open>The payload whose only item has the highest bid \<open>-5\<close>.\<close>

theorem negative_bid_or_ask_fails_validation_witness:
  "get_prop ''summary'' (JObj negativeBidPayload) = JArr [JObj negativeBidItem] \<and>
   JObj negativeBidItem \<in> set [JObj negativeBidItem] \<and>
   get_prop ''highest_bid'' (JObj negativeBidItem) = JStr ''-5'' \<and>
   decimal_Number (JStr ''-5'') = Fin (- 5) \<and>
   coerces_negative decimal_Number (get_prop ''highest_bid'' (JObj negativeBidItem)) \<and>
   validateMarketSummary decimal_Number (JObj negativeBidPayload)
     = Inl (ValidationError [Issue too_small None]) \<and>
   safeValidateMarketSummary decimal_Number (JObj negativeBidPayload) = None \<and>
   optionalNumber decimal_Number (JStr ''-5'') = Inl [Issue too_small None]"
proof -
  have summary: "get_prop ''summary'' (JObj negativeBidPayload) = JArr [JObj negativeBidItem]"
    by (simp add: negativeBidPayload_def)
  have bid: "get_prop ''highest_bid'' (JObj negativeBidItem) = JStr ''-5''"
    by (simp add: negativeBidItem_def)
  have five: "decimal_Number (JStr ''-5'') = Fin (- 5)"
    by code_simp
  have negative: "coerces_negative decimal_Number (get_prop ''highest_bid'' (JObj negativeBidItem))"
    unfolding coerces_negative_def bid five by (simp add: js_lt_def)
  have thrown: "validateMarketSummary decimal_Number (JObj negativeBidPayload)
     = Inl (ValidationError [Issue too_small None])"
    by code_simp
  have field: "optionalNumber decimal_Number (JStr ''-5'') = Inl [Issue too_small None]"
    by code_simp
  from negative have "coerces_negative decimal_Number (get_prop ''highest_bid'' (JObj negativeBidItem)) \<or>
      coerces_negative decimal_Number (get_prop ''lowest_ask'' (JObj negativeBidItem))"
    by simp
  from negative_bid_or_ask_fails_validation [OF summary _ this, of "JStr ''-5''"]
    summary bid five negative thrown field
  show ?thesis
    by simp
qed

section \<open>Rounding\<close>

text \<open>
  The facts about rounding that bound the spread: \<open>flog2\<close> is the binary logarithm
  rounded down, rounding is monotone, leaves every multiple of a power of two at or above
  the last place as it is, and yields multiples of the least subnormal number \<open>2^-1074\<close>.
\<close>

lemma pow2_le_of_int: "2 ^ k \<le> (n::int) \<Longrightarrow> (2::rat) ^ k \<le> of_int n"
  by (metis of_int_le_iff of_int_numeral of_int_power)

lemma of_int_less_pow2: "(n::int) < 2 ^ k \<Longrightarrow> (of_int n + 1 :: rat) \<le> 2 ^ k"
proof -
  assume "n < 2 ^ k"
  then have "n + 1 \<le> 2 ^ k" by simp
  then have "(of_int (n + 1) :: rat) \<le> of_int (2 ^ k)" by (simp only: of_int_le_iff)
  then show ?thesis by simp
qed

lemma flog2_bounds:
  assumes "0 < x"
  shows "2 powi flog2 x \<le> x \<and> x < 2 powi (flog2 x + 1)"
proof (cases "1 \<le> x")
  case True
  define n where "n = \<lfloor>x\<rfloor>"
  have "1 \<le> n" using True by (simp add: n_def le_floor_iff)
  then have n: "0 < n" "of_int n \<le> x" "x < of_int n + 1"
    using floor_correct [of x] by (simp_all add: n_def)
  from bitlen_bounds [OF n(1)] have b: "2 ^ nat (bitlen n - 1) \<le> n" "n < 2 ^ nat (bitlen n)"
    by auto
  have pos: "1 \<le> bitlen n" using n(1) by (auto simp: bitlen_alt_def)
  have fl: "flog2 x = bitlen n - 1" using True by (simp add: flog2_def n_def)
  have "(2::rat) powi (bitlen n - 1) = 2 ^ nat (bitlen n - 1)"
    using pos by (simp add: power_int_nonneg_exp)
  also have "\<dots> \<le> of_int n" by (rule pow2_le_of_int [OF b(1)])
  finally have lower: "2 powi (bitlen n - 1) \<le> x" using n(2) by simp
  have "x < of_int n + 1" by (rule n(3))
  also have "\<dots> \<le> (2::rat) ^ nat (bitlen n)" by (rule of_int_less_pow2 [OF b(2)])
  also have "\<dots> = 2 powi (bitlen n)" using pos by (simp add: power_int_nonneg_exp)
  finally have upper: "x < 2 powi (bitlen n)" .
  from lower upper fl show ?thesis by simp
next
  case False
  define y where "y = 1 / x"
  define n where "n = \<lceil>y\<rceil> - 1"
  have y: "1 < y" using False assms by (simp add: y_def)
  have "1 < \<lceil>y\<rceil>" using y by (simp add: less_ceiling_iff)
  then have n: "0 < n" "of_int n < y" "y \<le> of_int n + 1"
    using ceiling_correct [of y] by (simp_all add: n_def)
  from bitlen_bounds [OF n(1)] have b: "2 ^ nat (bitlen n - 1) \<le> n" "n < 2 ^ nat (bitlen n)"
    by auto
  have pos: "1 \<le> bitlen n" using n(1) by (auto simp: bitlen_alt_def)
  have fl: "flog2 x = - bitlen n" using False by (simp add: flog2_def n_def y_def)
  have "(2::rat) powi (bitlen n - 1) = 2 ^ nat (bitlen n - 1)"
    using pos by (simp add: power_int_nonneg_exp)
  also have "\<dots> \<le> of_int n" by (rule pow2_le_of_int [OF b(1)])
  also have "\<dots> < y" by (rule n(2))
  finally have "(2::rat) powi (bitlen n - 1) < 1 / x" by (simp add: y_def)
  then have "x < 1 / 2 powi (bitlen n - 1)"
    using assms by (simp add: field_simps)
  also have "\<dots> = 2 powi (- (bitlen n - 1))"
    by (simp only: power_int_minus_divide)
  finally have upper: "x < 2 powi (- bitlen n + 1)" by simp
  have "y \<le> of_int n + 1" by (rule n(3))
  also have "\<dots> \<le> (2::rat) ^ nat (bitlen n)" by (rule of_int_less_pow2 [OF b(2)])
  also have "\<dots> = 2 powi (bitlen n)" using pos by (simp add: power_int_nonneg_exp)
  finally have "1 / x \<le> 2 powi (bitlen n)" by (simp add: y_def)
  then have "1 / 2 powi (bitlen n) \<le> x"
    using assms by (simp add: field_simps)
  then have lower: "2 powi (- bitlen n) \<le> x"
    by (simp add: power_int_minus_divide)
  from lower upper fl show ?thesis by simp
qed

lemma flog2_unique:
  assumes "2 powi k \<le> x" "x < 2 powi (k + 1)"
  shows "flog2 x = k"
proof -
  have pos: "0 < x" using assms(1) by (rule order_less_le_trans [rotated]) simp
  note b = flog2_bounds [OF pos]
  have "(2::rat) powi k < 2 powi (flog2 x + 1)" using assms(1) b by linarith
  then have "k < flog2 x + 1"
    by (metis power_int_increasing not_le_imp_less leD one_le_numeral)
  moreover have "(2::rat) powi flog2 x < 2 powi (k + 1)" using assms(2) b by linarith
  then have "flog2 x < k + 1"
    by (metis power_int_increasing not_le_imp_less leD one_le_numeral)
  ultimately show ?thesis by simp
qed

lemma flog2_mono:
  assumes "0 < x" "x \<le> y"
  shows "flog2 x \<le> flog2 y"
proof -
  have "0 < y" using assms by simp
  from flog2_bounds [OF assms(1)] flog2_bounds [OF this] assms(2)
  have "(2::rat) powi flog2 x < 2 powi (flog2 y + 1)" by linarith
  then have "flog2 x < flog2 y + 1"
    by (metis power_int_increasing not_le_imp_less leD one_le_numeral)
  then show ?thesis by simp
qed

lemma flog2_pow2 [simp]: "flog2 (2 powi k) = k"
  by (rule flog2_unique) (simp_all add: power_int_strict_increasing)

lemma rhe_cases: "round_half_even y = \<lfloor>y\<rfloor> \<or> round_half_even y = \<lfloor>y\<rfloor> + 1"
  by (simp add: round_half_even_def Let_def)

lemma rhe_of_int [simp]: "round_half_even (of_int n) = n"
  by (simp add: round_half_even_def)

lemma rhe_lower: "y - 1 / 2 \<le> of_int (round_half_even y)"
proof -
  have "y < of_int \<lfloor>y\<rfloor> + 1" by linarith
  then show ?thesis by (auto simp: round_half_even_def Let_def)
qed

lemma rhe_upper: "of_int (round_half_even y) \<le> y + 1 / 2"
proof -
  have f: "of_int \<lfloor>y\<rfloor> \<le> y" by simp
  show ?thesis by (auto simp: round_half_even_def Let_def intro: order_trans [OF f])
qed

lemma rhe_mono:
  assumes "y \<le> z"
  shows "round_half_even y \<le> round_half_even z"
proof (cases "\<lfloor>y\<rfloor> = \<lfloor>z\<rfloor>")
  case True
  with assms show ?thesis
    by (auto simp: round_half_even_def Let_def)
next
  case False
  with assms have "\<lfloor>y\<rfloor> + 1 \<le> \<lfloor>z\<rfloor>"
    using floor_mono [OF assms] by simp
  with rhe_cases [of y] rhe_cases [of z] show ?thesis by auto
qed

lemma rhe_le_int: "y \<le> of_int n \<Longrightarrow> round_half_even y \<le> n"
  using rhe_mono [of y "of_int n"] by simp

lemma int_le_rhe: "of_int n \<le> y \<Longrightarrow> n \<le> round_half_even y"
  using rhe_mono [of "of_int n" y] by simp

lemma ulp_exp_ge: "- 1074 \<le> ulp_exp x"
  by (simp add: ulp_exp_def)

lemma ulp_exp_mono: "0 < x \<Longrightarrow> x \<le> y \<Longrightarrow> ulp_exp x \<le> ulp_exp y"
  using flog2_mono [of x y] by (simp add: ulp_exp_def)

lemma pow2_pos: "0 < (2::rat) powi k"
  by simp

lemma pow2_int:
  assumes "0 \<le> k"
  shows "(2::rat) powi k = of_int (2 ^ nat k)"
  using assms by (simp add: power_int_nonneg_exp)

lemma round_mag_nonneg:
  assumes "0 \<le> x"
  shows "0 \<le> round_mag x"
proof -
  have "0 \<le> x / 2 powi ulp_exp x" using assms by simp
  then have "of_int 0 \<le> x / 2 powi ulp_exp x" by simp
  then have "0 \<le> round_half_even (x / 2 powi ulp_exp x)" by (rule int_le_rhe)
  then show ?thesis by (simp add: round_mag_def)
qed

text \<open>A multiple of a power of two at or above the exponent of its last place is a fixed point.\<close>

lemma round_mag_fixed:
  assumes "x = of_int n * 2 powi e" "ulp_exp x \<le> e"
  shows "round_mag x = x"
proof -
  define e0 where "e0 = ulp_exp x"
  define d where "d = e - e0"
  have d: "0 \<le> d" using assms(2) by (simp add: d_def e0_def)
  have split: "(2::rat) powi e = 2 powi d * 2 powi e0"
    using power_int_add [of "2::rat" d e0] by (simp add: d_def)
  have "x / 2 powi e0 = of_int n * 2 powi d"
    by (simp add: assms(1) split)
  also have "\<dots> = of_int (n * 2 ^ nat d)"
    using d by (simp add: power_int_nonneg_exp)
  finally have "round_half_even (x / 2 powi e0) = n * 2 ^ nat d"
    by (simp only: rhe_of_int)
  then have "round_mag x = of_int (n * 2 ^ nat d) * 2 powi e0"
    by (simp add: round_mag_def e0_def)
  also have "\<dots> = of_int n * (2 powi d * 2 powi e0)"
    using d by (simp add: power_int_nonneg_exp)
  also have "\<dots> = x"
    by (simp only: split [symmetric] assms(1) [symmetric])
  finally show ?thesis .
qed

lemma round_mag_pow2:
  assumes "- 1074 \<le> k"
  shows "round_mag (2 powi k) = 2 powi k"
proof (rule round_mag_fixed [where n = 1 and e = k])
  show "(2::rat) powi k = of_int 1 * 2 powi k" by simp
  show "ulp_exp (2 powi k) \<le> k" using assms by (simp add: ulp_exp_def)
qed

lemma round_mag_mono:
  assumes "0 < x" "x \<le> y"
  shows "round_mag x \<le> round_mag y"
proof (cases "ulp_exp x = ulp_exp y")
  case True
  have "x / 2 powi ulp_exp y \<le> y / 2 powi ulp_exp y"
    using assms(2) by (simp add: divide_right_mono)
  then have "round_half_even (x / 2 powi ulp_exp y) \<le> round_half_even (y / 2 powi ulp_exp y)"
    by (rule rhe_mono)
  then have "(of_int (round_half_even (x / 2 powi ulp_exp y)) :: rat)
      \<le> of_int (round_half_even (y / 2 powi ulp_exp y))"
    by (simp only: of_int_le_iff)
  then show ?thesis
    by (simp add: round_mag_def True mult_right_mono)
next
  case False
  have y: "0 < y" using assms by simp
  from False ulp_exp_mono [OF assms] have less: "ulp_exp x < ulp_exp y" by simp
  with ulp_exp_ge [of x] have ey: "ulp_exp y = flog2 y - 52" "- 1074 < ulp_exp y"
    by (auto simp: ulp_exp_def)
  define p where "p = flog2 y"
  have p: "ulp_exp y = p - 52" "ulp_exp x < p - 52" using ey less by (simp_all add: p_def)
  have "flog2 x - 52 \<le> ulp_exp x" by (simp add: ulp_exp_def)
  with p have "flog2 x + 1 \<le> p" by simp
  then have "(2::rat) powi (flog2 x + 1) \<le> 2 powi p"
    by (intro power_int_increasing) simp_all
  with flog2_bounds [OF assms(1)] have xp: "x \<le> 2 powi p" by simp
  have py: "2 powi p \<le> y" using flog2_bounds [OF y] by (simp add: p_def)
  define dx where "dx = p - ulp_exp x"
  have dx: "0 \<le> dx" "p = ulp_exp x + dx" using p by (simp_all add: dx_def)
  have "x / 2 powi ulp_exp x \<le> 2 powi p / 2 powi ulp_exp x"
    using xp by (simp add: divide_right_mono)
  also have "\<dots> = 2 powi dx" by (simp add: dx(2) power_int_add)
  also have "\<dots> = of_int (2 ^ nat dx)" by (rule pow2_int [OF dx(1)])
  finally have "round_half_even (x / 2 powi ulp_exp x) \<le> 2 ^ nat dx" by (rule rhe_le_int)
  then have "(of_int (round_half_even (x / 2 powi ulp_exp x)) :: rat) \<le> of_int (2 ^ nat dx)"
    by (simp only: of_int_le_iff)
  then have "round_mag x \<le> of_int (2 ^ nat dx) * 2 powi ulp_exp x"
    by (simp add: round_mag_def mult_right_mono)
  also have "\<dots> = 2 powi dx * 2 powi ulp_exp x" by (simp only: pow2_int [OF dx(1)])
  also have "\<dots> = 2 powi p" by (simp add: dx(2) power_int_add mult.commute)
  finally have below: "round_mag x \<le> 2 powi p" .
  have "(2::rat) powi 52 = 2 powi p / 2 powi ulp_exp y"
    by (simp add: p(1) power_int_diff)
  also have "\<dots> \<le> y / 2 powi ulp_exp y"
    using py by (simp add: divide_right_mono)
  finally have "of_int (2 ^ 52) \<le> y / 2 powi ulp_exp y" by simp
  then have "2 ^ 52 \<le> round_half_even (y / 2 powi ulp_exp y)" by (rule int_le_rhe)
  then have "(of_int (2 ^ 52) :: rat) \<le> of_int (round_half_even (y / 2 powi ulp_exp y))"
    by (simp only: of_int_le_iff)
  then have "of_int (2 ^ 52) * 2 powi ulp_exp y \<le> round_mag y"
    by (simp add: round_mag_def mult_right_mono)
  moreover have "(of_int (2 ^ 52) :: rat) * 2 powi ulp_exp y = 2 powi p"
    using power_int_add [of "2::rat" 52 "p - 52"] by (simp add: p(1))
  ultimately have "2 powi p \<le> round_mag y" by simp
  with below show ?thesis by simp
qed

lemma flog2_zero [simp]: "flog2 0 = 0"
  by (simp add: flog2_def bitlen_alt_def)

declare power_int_numeral_neg_numeral [simp del]

text \<open>Every rounded magnitude is a multiple of the least subnormal number.\<close>

lemma round_mag_multiple: "\<exists>n. round_mag x = of_int n * 2 powi (- 1074)"
proof -
  define e where "e = ulp_exp x"
  define d where "d = e + 1074"
  have d: "0 \<le> d" using ulp_exp_ge [of x] by (simp add: d_def e_def)
  have "(2::rat) powi e = 2 powi d * 2 powi (- 1074)"
    using power_int_add [of "2::rat" d "- 1074"] by (simp add: d_def)
  also have "\<dots> = of_int (2 ^ nat d) * 2 powi (- 1074)"
    by (simp only: pow2_int [OF d])
  finally have "round_mag x
      = of_int (round_half_even (x / 2 powi e) * 2 ^ nat d) * 2 powi (- 1074)"
    by (simp add: round_mag_def e_def)
  then show ?thesis by blast
qed

lemma subnormal_exp:
  assumes "0 < x" "x < 2 powi (- 1021)"
  shows "ulp_exp x = - 1074"
proof -
  from flog2_bounds [OF assms(1)] assms(2) have "(2::rat) powi flog2 x < 2 powi (- 1021)"
    by linarith
  then have "flog2 x < - 1021"
    by (metis power_int_increasing not_le_imp_less leD one_le_numeral)
  then show ?thesis by (simp add: ulp_exp_def)
qed

lemma round_mag_half:
  assumes "round_mag a = a" "2 powi (- 1021) \<le> a"
  shows "round_mag (a / 2) = a / 2"
proof -
  have pos: "0 < a" using assms(2) by (rule order_less_le_trans [rotated]) simp
  from flog2_mono [of "2 powi (- 1021)" a] assms(2) have fl: "- 1021 \<le> flog2 a"
    by simp
  then have ea: "ulp_exp a = flog2 a - 52" by (simp add: ulp_exp_def)
  note b = flog2_bounds [OF pos]
  have "flog2 (a / 2) = flog2 a - 1"
  proof (rule flog2_unique)
    have "(2::rat) powi flog2 a = 2 powi (flog2 a - 1) * 2"
      using power_int_add [of "2::rat" "flog2 a - 1" 1] by simp
    with b show "2 powi (flog2 a - 1) \<le> a / 2" by simp
    have "(2::rat) powi (flog2 a + 1) = 2 powi (flog2 a - 1 + 1) * 2"
      using power_int_add [of "2::rat" "flog2 a" 1] by simp
    with b show "a / 2 < 2 powi (flog2 a - 1 + 1)" by simp
  qed
  with fl have eh: "ulp_exp (a / 2) = ulp_exp a - 1" by (simp add: ulp_exp_def)
  define n where "n = round_half_even (a / 2 powi ulp_exp a)"
  have a: "a = of_int n * 2 powi ulp_exp a"
    using assms(1) by (simp add: round_mag_def n_def)
  have "(2::rat) powi ulp_exp a = 2 powi (ulp_exp a - 1) * 2"
    using power_int_add [of "2::rat" "ulp_exp a - 1" 1] by simp
  with a have "a = of_int n * (2 powi (ulp_exp a - 1) * 2)" by simp
  then have "a / 2 = of_int n * 2 powi (ulp_exp a - 1)" by simp
  then show ?thesis
    by (rule round_mag_fixed) (simp add: eh)
qed

lemma double_half_bound:
  assumes a: "round_mag a = a" and b: "round_mag b = b" and pos: "0 < b" and less: "b < a"
  shows "a \<le> 2 * round_mag (round_mag (a + b) / 2)"
proof -
  define u where "u = (2::rat) powi (- 1074)"
  have u: "0 < u" by (simp add: u_def)
  have apos: "0 < a" using pos less by simp
  have r1: "a \<le> round_mag (a + b)"
    using round_mag_mono [of a "a + b"] apos pos a by simp
  show ?thesis
  proof (cases "2 powi (- 1021) \<le> a")
    case True
    have "round_mag (a / 2) \<le> round_mag (round_mag (a + b) / 2)"
      using r1 apos by (intro round_mag_mono) simp_all
    with round_mag_half [OF a True] show ?thesis by simp
  next
    case small: False
    show ?thesis
    proof (cases "2 powi (- 1021) \<le> a + b")
      case True
      have "round_mag (2 powi (- 1021)) \<le> round_mag (a + b)"
        using True by (intro round_mag_mono) simp_all
      moreover have "round_mag (2 powi (- 1021)) = 2 powi (- 1021)"
        by (rule round_mag_pow2) simp
      ultimately have "2 powi (- 1021) \<le> round_mag (a + b)"
        by simp
      moreover have "(2::rat) powi (- 1021) = 2 powi (- 1022) * 2"
        using power_int_add [of "2::rat" "- 1022" 1] by simp
      ultimately have "2 powi (- 1022) \<le> round_mag (a + b) / 2" by simp
      then have "round_mag (2 powi (- 1022)) \<le> round_mag (round_mag (a + b) / 2)"
        by (intro round_mag_mono) simp_all
      moreover have "round_mag (2 powi (- 1022)) = 2 powi (- 1022)"
        by (rule round_mag_pow2) simp
      ultimately have "2 powi (- 1022) \<le> round_mag (round_mag (a + b) / 2)"
        by simp
      with \<open>(2::rat) powi (- 1021) = 2 powi (- 1022) * 2\<close> small show ?thesis
        by simp
    next
      case False
      then have sum: "0 < a + b" "a + b < 2 powi (- 1021)" using apos pos by simp_all
      from round_mag_multiple [of a] a obtain na where na: "a = of_int na * u"
        by (auto simp: u_def)
      from round_mag_multiple [of b] b obtain nb where nb: "b = of_int nb * u"
        by (auto simp: u_def)
      have "0 < of_int nb * u" using pos nb by simp
      then have "0 < (of_int nb :: rat)" using u by (simp add: zero_less_mult_iff)
      then have "1 \<le> nb" by simp
      then have "(1::rat) \<le> of_int nb" by simp
      then have bu: "u \<le> b" using u by (simp add: nb)
      have es: "ulp_exp (a + b) = - 1074" by (rule subnormal_exp [OF sum])
      have "a + b = of_int (na + nb) * 2 powi (- 1074)"
        by (simp add: na nb u_def algebra_simps)
      then have exact: "round_mag (a + b) = a + b"
        by (rule round_mag_fixed) (simp add: es)
      have half: "0 < (a + b) / 2" "(a + b) / 2 < 2 powi (- 1021)"
        using sum by simp_all
      have eh: "ulp_exp ((a + b) / 2) = - 1074" by (rule subnormal_exp [OF half])
      have "(a + b) / 2 / u - 1 / 2 \<le> of_int (round_half_even ((a + b) / 2 / u))"
        by (rule rhe_lower)
      then have "((a + b) / 2 / u - 1 / 2) * u \<le> of_int (round_half_even ((a + b) / 2 / u)) * u"
        using u by (simp only: mult_le_cancel_right_pos)
      also have "\<dots> = round_mag ((a + b) / 2)"
        by (simp add: round_mag_def eh u_def)
      finally have "((a + b) / 2 / u - 1 / 2) * u \<le> round_mag ((a + b) / 2)" .
      moreover have "((a + b) / 2 / u - 1 / 2) * u = (a + b) / 2 - u / 2"
        using u by (simp add: field_simps)
      ultimately have "(a + b) / 2 - u / 2 \<le> round_mag ((a + b) / 2)" by simp
      with bu have "a \<le> 2 * round_mag ((a + b) / 2)" by (simp add: field_simps)
      then show ?thesis by (simp only: exact)
    qed
  qed
qed

lemma finite_double:
  assumes "round_double x = Fin x" "0 < x"
  shows "round_mag x = x" "flog2 x < 1024"
  using assms by (auto simp: round_double_def Let_def split: if_splits)

text \<open>Rounding a positive value below a fixed point without overflow.\<close>

lemma round_double_below:
  assumes "0 < x" "x \<le> c" "round_mag c = c" "flog2 c < 1024"
  shows "round_double x = Fin (round_mag x)" "0 \<le> round_mag x" "round_mag x \<le> c"
proof -
  show le: "round_mag x \<le> c" using round_mag_mono [OF assms(1,2)] assms(3) by simp
  show nonneg: "0 \<le> round_mag x" using assms(1) by (intro round_mag_nonneg) simp
  have "flog2 (round_mag x) < 1024"
  proof (cases "round_mag x = 0")
    case True
    then show ?thesis by simp
  next
    case False
    with nonneg have "0 < round_mag x" by simp
    from flog2_mono [OF this le] assms(4) show ?thesis by simp
  qed
  then show "round_double x = Fin (round_mag x)"
    using assms(1) by (simp add: round_double_def Let_def)
qed

lemma small_fixed:
  "round_mag 2 = 2" "flog2 2 < 1024" "round_mag 200 = 200" "flog2 200 < 1024"
proof -
  have "round_mag (2 powi 1) = 2 powi 1" by (rule round_mag_pow2) simp
  then show "round_mag 2 = 2" by simp
  have "flog2 (2 powi 1) = 1" by (rule flog2_pow2)
  then show "flog2 2 < 1024" by simp
  have "flog2 200 = 7" by (rule flog2_unique) simp_all
  then show "flog2 200 < 1024" by simp
  have "(200::rat) = of_int 25 * 2 powi 3" by simp
  then show "round_mag 200 = 200"
    by (rule round_mag_fixed) (simp add: ulp_exp_def \<open>flog2 200 = 7\<close>)
qed

text \<open>
  C4, amended. For doubles \<open>0 < bid \<le> ask\<close> the spread is a number between 0 and 200,
  both included, and the spread of a bid with itself is 0. The difference \<open>ask - bid\<close>
  rounds to at most \<open>ask\<close>, and twice the rounded middle price is at least \<open>ask\<close>, so the
  rounded quotient is at most 2.
\<close>

theorem spread_range:
  assumes da: "is_double (Fin a)" and db: "is_double (Fin b)" and pos: "0 < b" and le: "b \<le> a"
  shows "(\<exists>s. calculateSpread (Some (Fin b)) (Some (Fin a)) = Some (Fin s) \<and> 0 \<le> s \<and> s \<le> 200) \<and>
    calculateSpread (Some (Fin b)) (Some (Fin b)) = Some (Fin 0)"
proof -
  have same: "calculateSpread (Some (Fin b)) (Some (Fin b)) = Some (Fin 0)"
    using pos by (simp add: calculateSpread_def js_le_def js_lt_def js_eq_def)
  have range: "\<exists>s. calculateSpread (Some (Fin b)) (Some (Fin a)) = Some (Fin s) \<and> 0 \<le> s \<and> s \<le> 200"
  proof (cases "a = b")
    case True
    with same show ?thesis by auto
  next
    case False
    with le have less: "b < a" by simp
    then have apos: "0 < a" using pos by simp
    note fa = finite_double [OF da [simplified] apos]
    note fb = finite_double [OF db [simplified] pos]
    define d where "d = round_mag (a - b)"
    have dd: "round_double (a - b) = Fin d" "0 \<le> d" "d \<le> a"
      unfolding d_def using less pos fa by (intro round_double_below; simp)+
    have sub: "js_sub (Fin a) (Fin b) = Fin d"
      using pos less dd(1) by (simp add: js_sub_def js_neg_def js_add_def)
    have mid: "js_div (js_add (Fin b) (Fin a)) (Fin 2) = PosInf \<or>
      (\<exists>m. js_div (js_add (Fin b) (Fin a)) (Fin 2) = Fin m \<and> 0 < m \<and> a \<le> 2 * m)"
    proof (cases "1024 \<le> flog2 (round_mag (b + a))")
      case True
      then have "js_add (Fin b) (Fin a) = PosInf"
        using pos apos by (simp add: js_add_def round_double_def Let_def)
      then show ?thesis by (simp add: js_div_def js_inf_def)
    next
      case False
      define r where "r = round_mag (a + b)"
      have r: "a \<le> r" "flog2 r < 1024"
        using round_mag_mono [of a "a + b"] apos pos fa(1) False by (simp_all add: r_def add.commute)
      have sum: "js_add (Fin b) (Fin a) = Fin r"
        using pos apos False by (simp add: js_add_def round_double_def Let_def r_def add.commute)
      have rpos: "0 < r" using r(1) apos by simp
      have "r < 2 powi (flog2 r + 1)" using flog2_bounds [OF rpos] by simp
      also have "\<dots> \<le> 2 powi 1024" using r(2) by (intro power_int_increasing) simp_all
      finally have "r / 2 \<le> 2 powi 1023"
        using power_int_add [of "2::rat" 1023 1] by simp
      moreover have "round_mag (2 powi 1023) = 2 powi 1023" by (rule round_mag_pow2) simp
      moreover have "flog2 (2 powi 1023) < 1024" by (simp only: flog2_pow2)
      ultimately have half: "round_double (r / 2) = Fin (round_mag (r / 2))"
        using rpos by (intro round_double_below(1)) simp_all
      have bound: "a \<le> 2 * round_mag (r / 2)"
        unfolding r_def by (rule double_half_bound [OF fa(1) fb(1) pos less])
      with apos have mpos: "0 < round_mag (r / 2)" by simp
      have "js_div (Fin r) (Fin 2) = Fin (round_mag (r / 2))"
        using rpos half by (simp add: js_div_def)
      with sum bound mpos show ?thesis by simp
    qed
    have calc: "calculateSpread (Some (Fin b)) (Some (Fin a))
        = Some (js_mul (js_div (Fin d) (js_div (js_add (Fin b) (Fin a)) (Fin 2))) (Fin 100))"
      using pos apos less False
      by (simp add: calculateSpread_def js_le_def js_lt_def js_eq_def Let_def sub)
    from mid show ?thesis
    proof
      assume inf: "js_div (js_add (Fin b) (Fin a)) (Fin 2) = PosInf"
      have "js_mul (js_div (Fin d) PosInf) (Fin 100) = Fin 0"
        using dd(2) by (simp add: js_div_def js_mul_def js_zero_def)
      then have "calculateSpread (Some (Fin b)) (Some (Fin a)) = Some (Fin 0)"
        unfolding calc inf by simp
      then show ?thesis by simp
    next
      assume "\<exists>m. js_div (js_add (Fin b) (Fin a)) (Fin 2) = Fin m \<and> 0 < m \<and> a \<le> 2 * m"
      then obtain m where m: "js_div (js_add (Fin b) (Fin a)) (Fin 2) = Fin m" "0 < m" "a \<le> 2 * m"
        by blast
      show ?thesis
      proof (cases "d = 0")
        case True
        then have "js_mul (js_div (Fin d) (Fin m)) (Fin 100) = Fin 0"
          using m(2) by (simp add: js_div_def js_mul_def js_zero_def)
        then have "calculateSpread (Some (Fin b)) (Some (Fin a)) = Some (Fin 0)"
          unfolding calc m(1) by simp
        then show ?thesis by simp
      next
        case False
        with dd(2) have dpos: "0 < d" by simp
        have "d / m \<le> 2" using dd(3) m(2,3) by (simp add: field_simps)
        moreover have "0 < d / m" using dpos m(2) by simp
        ultimately have q: "round_double (d / m) = Fin (round_mag (d / m))"
          "0 \<le> round_mag (d / m)" "round_mag (d / m) \<le> 2"
          using small_fixed(1,2) by (intro round_double_below; simp)+
        have quot: "js_div (Fin d) (Fin m) = Fin (round_mag (d / m))"
          using dpos m(2) q(1) by (simp add: js_div_def)
        show ?thesis
        proof (cases "round_mag (d / m) = 0")
          case True
          then have "js_mul (Fin (round_mag (d / m))) (Fin 100) = Fin 0"
            by (simp add: js_mul_def js_zero_def)
          then have "calculateSpread (Some (Fin b)) (Some (Fin a)) = Some (Fin 0)"
            unfolding calc m(1) quot by simp
          then show ?thesis by simp
        next
          case False
          with q(2) have qpos: "0 < round_mag (d / m) * 100" by simp
          have "round_mag (d / m) * 100 \<le> 200" using q(3) by simp
          with qpos have t: "round_double (round_mag (d / m) * 100) = Fin (round_mag (round_mag (d / m) * 100))"
            "0 \<le> round_mag (round_mag (d / m) * 100)" "round_mag (round_mag (d / m) * 100) \<le> 200"
            using small_fixed(3,4) by (intro round_double_below; simp)+
          have "js_mul (Fin (round_mag (d / m))) (Fin 100) = Fin (round_mag (round_mag (d / m) * 100))"
            using False t(1) by (simp add: js_mul_def)
          then have "calculateSpread (Some (Fin b)) (Some (Fin a))
              = Some (Fin (round_mag (round_mag (d / m) * 100)))"
            unfolding calc m(1) quot by simp
          with t(2,3) show ?thesis by simp
        qed
      qed
    qed
  qed
  from range same show ?thesis by simp
qed

text \<open>The scenario bid 100, ask 102 of the specification: a spread of about 1.98.\<close>

theorem spread_range_witness:
  "is_double (Fin 102) \<and> is_double (Fin 100) \<and> (0::rat) < 100 \<and> (100::rat) \<le> 102 \<and>
   calculateSpread (Some (Fin 100)) (Some (Fin 102))
     = Some (Fin (1114752383012499 / 562949953421312)) \<and>
   (0::rat) \<le> 1114752383012499 / 562949953421312 \<and>
   (1114752383012499 / 562949953421312 :: rat) \<le> 200 \<and>
   calculateSpread (Some (Fin 100)) (Some (Fin 100)) = Some (Fin 0)"
proof -
  have doubles: "is_double (Fin 102)" "is_double (Fin 100)"
    by code_simp+
  have order: "(0::rat) < 100" "(100::rat) \<le> 102"
    by simp_all
  have computed: "calculateSpread (Some (Fin 100)) (Some (Fin 102))
     = Some (Fin (1114752383012499 / 562949953421312))"
    by code_simp
  from spread_range [OF doubles order] doubles computed show ?thesis
    by simp
qed

text \<open>
  C4 as stated fails: for the doubles bid \<open>2^-60\<close> and ask 1 both \<open>ask - bid\<close> and
  \<open>ask + bid\<close> round to 1, and the spread is \<open>(1 / 0.5) * 100\<close>, the number 200, which
  is outside the interval that ends before 200.
\<close>

theorem spread_range_counterexample:
  "is_double (Fin (1 / 2 ^ 60)) \<and> is_double (Fin 1) \<and> (0::rat) < 1 / 2 ^ 60 \<and>
   (1 / 2 ^ 60 :: rat) \<le> 1 \<and>
   js_sub (Fin 1) (Fin (1 / 2 ^ 60)) = Fin 1 \<and>
   js_add (Fin (1 / 2 ^ 60)) (Fin 1) = Fin 1 \<and>
   calculateSpread (Some (Fin (1 / 2 ^ 60))) (Some (Fin 1)) = Some (Fin 200)"
proof -
  have "is_double (Fin (1 / 2 ^ 60))" "is_double (Fin 1)"
    by code_simp+
  moreover have "js_sub (Fin 1) (Fin (1 / 2 ^ 60)) = Fin 1"
    "js_add (Fin (1 / 2 ^ 60)) (Fin 1) = Fin 1"
    by code_simp+
  moreover have "calculateSpread (Some (Fin (1 / 2 ^ 60))) (Some (Fin 1)) = Some (Fin 200)"
    by code_simp
  ultimately show ?thesis by simp
qed

end
